theory Spec2Isabelle
  imports Complex_Main
begin

section \<open>Numeric arrays and failures\<close>

text \<open>
  The kernels of \<^verbatim>\<open>student.py\<close> compute on numpy arrays of floating-point numbers.
  The code is embedded twice.  The first embedding, in this and the next four sections,
  reads every array entry as a \<^typ>\<open>real\<close> and every operation as the exact one:
  rounding, infinities and NaN are outside of it.  The second embedding, in the section
  on IEEE arithmetic, rounds every operation and has infinities and NaN.  Properties of
  shapes, indices, failures and of computations that are exact in floating point are
  stated for the first embedding; where rounding, overflow or underflow changes the
  result, the second embedding says what the code returns.

  Every exception the Python code can raise is a value of \<open>error\<close>; an IEEE division
  by zero does not raise in numpy but produces a non-finite entry, which the first
  embedding reports as \<open>NonFinite\<close> because no real number stands for it.
\<close>

datatype error = ValueError | IndexError | LinAlgError | ZeroDivisionError | NonFinite

type_synonym vec = "real list"
type_synonym mat = "real list list"

text \<open>Running a list of fallible computations stops at the first failure.\<close>

fun sequence_err :: "(error + 'a) list \<Rightarrow> error + 'a list" where
  "sequence_err [] = Inr []"
| "sequence_err (x # xs) =
     (case x of
        Inl e \<Rightarrow> Inl e
      | Inr v \<Rightarrow> (case sequence_err xs of Inl e \<Rightarrow> Inl e | Inr vs \<Rightarrow> Inr (v # vs)))"

text \<open>\<^verbatim>\<open>np.dot(M, v)\<close> of a 2-D array with a 1-D array: the row length of \<open>M\<close> must be
  the length of \<open>v\<close>, otherwise numpy raises ValueError.\<close>

definition np_dot :: "mat \<Rightarrow> vec \<Rightarrow> error + vec" where
  "np_dot M v =
     (if list_all (\<lambda>row. length row = length v) M
      then Inr (map (\<lambda>row. sum_list (map2 (*) row v)) M)
      else Inl ValueError)"

section \<open>Matrix inversion\<close>

text \<open>
  \<^verbatim>\<open>np.linalg.inv\<close> is library code.  In exact arithmetic it returns the inverse of a
  square non-singular matrix and raises LinAlgError for a matrix that is not square or
  is singular.  The model computes the inverse as the adjugate over the determinant,
  the determinant by expansion along the first row.
\<close>

definition del_at :: "nat \<Rightarrow> 'a list \<Rightarrow> 'a list" where
  "del_at j xs = take j xs @ drop (Suc j) xs"

function det :: "mat \<Rightarrow> real" where
  "det [] = 1"
| "det (r # rs) =
     sum_list (map (\<lambda>j. (- 1) ^ j * (r ! j) * det (map (del_at j) rs)) [0..<length r])"
  by pat_completeness auto
termination
  by (relation "measure length") auto

definition minor_mat :: "nat \<Rightarrow> nat \<Rightarrow> mat \<Rightarrow> mat" where
  "minor_mat i j M = map (del_at j) (del_at i M)"

definition linalg_inv :: "mat \<Rightarrow> error + mat" where
  "linalg_inv M =
     (let n = length M in
      if \<not> list_all (\<lambda>row. length row = n) M then Inl LinAlgError
      else if det M = 0 then Inl LinAlgError
      else Inr (map (\<lambda>i. map (\<lambda>j. (- 1) ^ (i + j) * det (minor_mat j i M) / det M) [0..<n])
                 [0..<n]))"

section \<open>Geometry kernel\<close>

subsection \<open>\<^verbatim>\<open>project_impl\<close>\<close>

text \<open>The body of the double loop of \<^verbatim>\<open>project_impl\<close> for one grid cell \<open>p = points[h,w]\<close>:
  first the camera-space point \<^verbatim>\<open>ext_point = np.dot(Rt, in_vec)\<close>, then the intrinsics and
  the divide \<^verbatim>\<open>int_point /= int_point[2]\<close>.\<close>

definition ext_point :: "mat \<Rightarrow> vec \<Rightarrow> error + vec" where
  "ext_point Rt p =
     (if length p < 3 then Inl IndexError else np_dot Rt [p ! 0, p ! 1, p ! 2, 1])"

definition project_point :: "mat \<Rightarrow> mat \<Rightarrow> vec \<Rightarrow> error + vec" where
  "project_point K Rt p =
     (case ext_point Rt p of
        Inl e \<Rightarrow> Inl e
      | Inr ext \<Rightarrow>
          (case np_dot K ext of
             Inl e \<Rightarrow> Inl e
           | Inr int_point \<Rightarrow>
               if length int_point < 3 then Inl IndexError
               else if int_point ! 2 = 0 then Inl NonFinite
               else Inr [int_point ! 0 / int_point ! 2, int_point ! 1 / int_point ! 2]))"

definition project_impl :: "mat \<Rightarrow> mat \<Rightarrow> vec list list \<Rightarrow> error + vec list list" where
  "project_impl K Rt points =
     sequence_err (map (\<lambda>row. sequence_err (map (project_point K Rt) row)) points)"

subsection \<open>\<^verbatim>\<open>unproject_corners_impl\<close>\<close>

definition ncols :: "mat \<Rightarrow> nat" where
  "ncols M = (case M of [] \<Rightarrow> 0 | r # _ \<Rightarrow> length r)"

text \<open>\<^verbatim>\<open>np.pad(Rt, [(0, 1), (0, 0)], mode='constant')\<close> appends one row of zeros.\<close>

definition pad_row :: "mat \<Rightarrow> mat" where
  "pad_row M = M @ [replicate (ncols M) 0]"

text \<open>\<^verbatim>\<open>M[i][j] = v\<close>; out of range it raises IndexError.\<close>

definition set_entry :: "mat \<Rightarrow> nat \<Rightarrow> nat \<Rightarrow> real \<Rightarrow> error + mat" where
  "set_entry M i j v =
     (if i < length M \<and> j < length (M ! i) then Inr (M[i := (M ! i)[j := v]])
      else Inl IndexError)"

text \<open>The 4x4 homogeneous extension of \<open>Rt\<close> (lines 52 to 54).\<close>

definition extend_Rt :: "mat \<Rightarrow> error + mat" where
  "extend_Rt Rt = set_entry (pad_row Rt) 3 3 1"

text \<open>\<^verbatim>\<open>K_inv *= depth\<close>.\<close>

definition scale_mat :: "real \<Rightarrow> mat \<Rightarrow> mat" where
  "scale_mat d M = map (map (\<lambda>x. x * d)) M"

text \<open>The pixel coordinates written into \<^verbatim>\<open>out_corners\<close> before the loop
  (lines 63 to 73): entry \<open>[h][w]\<close> holds \<open>(x, y)\<close>.\<close>

definition corner_pixels :: "int \<Rightarrow> int \<Rightarrow> (real \<times> real) list list" where
  "corner_pixels width height =
     [[(0, 0), (real_of_int (width - 1), 0)],
      [(0, real_of_int (height - 1)), (real_of_int (width - 1), real_of_int (height - 1))]]"

text \<open>The homogeneous 4-vector \<^verbatim>\<open>np.dot(Rt_inv, temp_vec)\<close> of one corner, before the
  perspective divide (lines 78 to 94).\<close>

definition unproject_hom :: "mat \<Rightarrow> mat \<Rightarrow> real \<times> real \<Rightarrow> error + vec" where
  "unproject_hom K_inv Rt_inv px =
     (case np_dot K_inv [fst px, snd px, 1] of
        Inl e \<Rightarrow> Inl e
      | Inr curr_vec \<Rightarrow>
          if length curr_vec < 3 then Inl IndexError
          else np_dot Rt_inv [curr_vec ! 0, curr_vec ! 1, curr_vec ! 2, 1])"

text \<open>The loop body: the divide \<^verbatim>\<open>curr_vec /= curr_vec[3]\<close> and the three stores.\<close>

definition unproject_corner :: "mat \<Rightarrow> mat \<Rightarrow> real \<times> real \<Rightarrow> error + vec" where
  "unproject_corner K_inv Rt_inv px =
     (case unproject_hom K_inv Rt_inv px of
        Inl e \<Rightarrow> Inl e
      | Inr curr_vec \<Rightarrow>
          if length curr_vec < 4 then Inl IndexError
          else if curr_vec ! 3 = 0 then Inl NonFinite
          else Inr [curr_vec ! 0 / curr_vec ! 3, curr_vec ! 1 / curr_vec ! 3,
                    curr_vec ! 2 / curr_vec ! 3])"

definition unproject_corners_impl ::
  "mat \<Rightarrow> int \<Rightarrow> int \<Rightarrow> real \<Rightarrow> mat \<Rightarrow> error + vec list list" where
  "unproject_corners_impl K width height depth Rt =
     (case extend_Rt Rt of
        Inl e \<Rightarrow> Inl e
      | Inr Rt_ext \<Rightarrow>
          (case linalg_inv Rt_ext of
             Inl e \<Rightarrow> Inl e
           | Inr Rt_inv \<Rightarrow>
               (case linalg_inv K of
                  Inl e \<Rightarrow> Inl e
                | Inr K_inv0 \<Rightarrow>
                    let K_inv = scale_mat depth K_inv0 in
                    sequence_err
                      (map (\<lambda>row. sequence_err (map (unproject_corner K_inv Rt_inv) row))
                         (corner_pixels width height)))))"


text \<open>The shape of a 2-D array given as a list of rows.\<close>

definition has_shape :: "nat \<Rightarrow> nat \<Rightarrow> mat \<Rightarrow> bool" where
  "has_shape r c M \<longleftrightarrow> length M = r \<and> list_all (\<lambda>row. length row = c) M"

text \<open>The camera-space depth (third component of \<^verbatim>\<open>ext_point\<close>) of a world point is
  defined and not zero.\<close>

definition z_nonzero :: "mat \<Rightarrow> vec \<Rightarrow> bool" where
  "z_nonzero Rt X =
     (case ext_point Rt X of Inl e \<Rightarrow> False | Inr ext \<Rightarrow> 2 < length ext \<and> ext ! 2 \<noteq> 0)"

section \<open>Patch normalizer: \<^verbatim>\<open>preprocess_ncc_impl\<close>\<close>

text \<open>
  An image is a list of rows, a row a list of pixels, a pixel the list of its channel
  values.  \<open>image_shape\<close> reads \<^verbatim>\<open>image.shape\<close> off a rectangular nested list; an array
  with no rows or no columns keeps no record of its remaining extents, and for such an
  array the function raises whatever they are (see \<open>preprocess_ncc_impl\<close>).
\<close>

type_synonym image = "real list list list"

definition wf_image :: "nat \<Rightarrow> nat \<Rightarrow> nat \<Rightarrow> image \<Rightarrow> bool" where
  "wf_image h w c img \<longleftrightarrow>
     length img = h \<and> list_all (\<lambda>row. length row = w \<and> list_all (\<lambda>px. length px = c) row) img"

definition image_shape :: "image \<Rightarrow> nat \<times> nat \<times> nat" where
  "image_shape img =
     (length img,
      (case img of [] \<Rightarrow> 0 | row # _ \<Rightarrow> length row),
      (case concat img of [] \<Rightarrow> 0 | px # _ \<Rightarrow> length px))"

text \<open>Python's resolution of one bound of a slice against an axis of length \<open>len\<close>:
  a negative bound counts from the end, and the result is clipped to \<open>[0, len]\<close>.\<close>

definition clip_index :: "nat \<Rightarrow> int \<Rightarrow> nat" where
  "clip_index len x = nat (if x < 0 then max (x + int len) 0 else min x (int len))"

text \<open>The slice \<^verbatim>\<open>a:b\<close> on an axis of length \<open>len\<close>: its first index and its length.\<close>

definition slice_start :: "nat \<Rightarrow> int \<Rightarrow> int \<Rightarrow> nat" where
  "slice_start len a b = clip_index len a"

definition slice_len :: "nat \<Rightarrow> int \<Rightarrow> int \<Rightarrow> nat" where
  "slice_len len a b = clip_index len b - clip_index len a"

text \<open>Assigning an array with \<open>src\<close> entries along an axis to a view with \<open>dst\<close> entries
  broadcasts: the extents agree, or the source has extent 1 and is repeated.\<close>

definition broadcastable :: "nat \<Rightarrow> nat \<Rightarrow> bool" where
  "broadcastable src dst \<longleftrightarrow> src = dst \<or> src = 1"

definition bcast :: "nat \<Rightarrow> nat \<Rightarrow> nat" where
  "bcast src p = (if src = 1 then 0 else p)"

text \<open>\<^verbatim>\<open>np.zeros((h, w, c, ncc_size, ncc_size))\<close>.\<close>

definition zeros5 :: "nat \<Rightarrow> nat \<Rightarrow> nat \<Rightarrow> nat \<Rightarrow> real list list list list list" where
  "zeros5 h w c n = replicate h (replicate w (replicate c (replicate n (replicate n 0))))"

text \<open>
  One pass of the loop body (line 179):
  \<^verbatim>\<open>normalized[k:h-k, k:w-k, :, i, j] = image[i:h-2*k+i, j:w-2*k+j, :]\<close>.
  Both sides are resolved as Python slices; numpy raises ValueError when the right-hand
  side does not broadcast to the shape of the left-hand view.
\<close>

definition assign_offset ::
  "image \<Rightarrow> nat \<Rightarrow> nat \<Rightarrow> nat \<Rightarrow> nat \<Rightarrow> nat \<Rightarrow> nat \<Rightarrow>
   real list list list list list \<Rightarrow> error + real list list list list list" where
  "assign_offset img h w c k i j normalized =
     (let dr = slice_start h (int k) (int h - int k);
          nr = slice_len h (int k) (int h - int k);
          dc = slice_start w (int k) (int w - int k);
          nc = slice_len w (int k) (int w - int k);
          sr = slice_start h (int i) (int h - 2 * int k + int i);
          mr = slice_len h (int i) (int h - 2 * int k + int i);
          sc = slice_start w (int j) (int w - 2 * int k + int j);
          mc = slice_len w (int j) (int w - 2 * int k + int j)
      in if \<not> (broadcastable mr nr \<and> broadcastable mc nc) then Inl ValueError
         else Inr (map (\<lambda>r. map (\<lambda>s.
                if dr \<le> r \<and> r < dr + nr \<and> dc \<le> s \<and> s < dc + nc
                then map (\<lambda>ch. (normalized ! r ! s ! ch)
                       [i := (normalized ! r ! s ! ch ! i)
                          [j := img ! (sr + bcast mr (r - dr)) ! (sc + bcast mc (s - dc)) ! ch]])
                     [0..<c]
                else normalized ! r ! s) [0..<w]) [0..<h]))"

text \<open>Shapes of the intermediate arrays: a patch is \<open>c\<close> blocks of \<open>n\<close> rows of \<open>n\<close> values,
  the 5-D array \<^verbatim>\<open>normalized\<close> an \<open>h\<close> by \<open>w\<close> grid of patches.\<close>

definition patch_shaped :: "nat \<Rightarrow> nat \<Rightarrow> real list list list \<Rightarrow> bool" where
  "patch_shaped c n patch \<longleftrightarrow>
     length patch = c \<and>
     list_all (\<lambda>block. length block = n \<and> list_all (\<lambda>row. length row = n) block) patch"

definition field_shaped ::
  "nat \<Rightarrow> nat \<Rightarrow> nat \<Rightarrow> nat \<Rightarrow> real list list list list list \<Rightarrow> bool" where
  "field_shaped h w c n normalized \<longleftrightarrow>
     length normalized = h \<and>
     list_all (\<lambda>row. length row = w \<and> list_all (patch_shaped c n) row) normalized"

text \<open>A \<^verbatim>\<open>for\<close> loop whose body may raise.\<close>

fun fold_err :: "('a \<Rightarrow> 's \<Rightarrow> error + 's) \<Rightarrow> 'a list \<Rightarrow> 's \<Rightarrow> error + 's" where
  "fold_err f [] s = Inr s"
| "fold_err f (x # xs) s = (case f x s of Inl e \<Rightarrow> Inl e | Inr s' \<Rightarrow> fold_err f xs s')"

text \<open>Lines 156 to 179: the 5-D array of raw patches.\<close>

definition raw_patches :: "image \<Rightarrow> nat \<Rightarrow> error + real list list list list list" where
  "raw_patches img n =
     (case image_shape img of (h, w, c) \<Rightarrow>
        let k = n div 2 in
        fold_err (\<lambda>i. fold_err (\<lambda>j. assign_offset img h w c k i j) [0..<n]) [0..<n]
          (zeros5 h w c n))"

text \<open>The raw patch of one pixel flattened in row-major order, as
  \<^verbatim>\<open>reshape(h, w, -1)\<close> lays out the axes \<open>(channel, i, j)\<close>.\<close>

definition flatten_patch :: "real list list list \<Rightarrow> vec" where
  "flatten_patch patch = concat (map concat patch)"

definition mean :: "vec \<Rightarrow> real" where
  "mean xs = sum_list xs / real (length xs)"

text \<open>Lines 184 to 186 for one pixel: each channel block \<^verbatim>\<open>reshape(h, w, c, -1)\<close> loses its
  own mean, and the blocks are joined into one vector.\<close>

definition center_patch :: "real list list list \<Rightarrow> vec" where
  "center_patch patch =
     concat (map (\<lambda>block. let b = concat block in map (\<lambda>x. x - mean b) b) patch)"

text \<open>\<^verbatim>\<open>np.linalg.norm\<close> along the last axis.\<close>

definition l2norm :: "vec \<Rightarrow> real" where
  "l2norm v = sqrt (sum_list (map (\<lambda>x. x * x) v))"

text \<open>Line 188: \<^verbatim>\<open>norm[norm == 0] = 1\<close>.\<close>

definition fix_zero :: "real \<Rightarrow> real" where
  "fix_zero x = (if x = 0 then 1 else x)"

text \<open>Lines 192 to 195: the rows (or columns) cleared by \<^verbatim>\<open>mask[:k] = False\<close> and
  \<^verbatim>\<open>mask[-k:] = False\<close> on an axis of length \<open>len\<close>.  With \<open>k = 0\<close> the second slice is
  \<^verbatim>\<open>mask[0:]\<close>, the whole axis.\<close>

definition margin :: "nat \<Rightarrow> nat \<Rightarrow> nat \<Rightarrow> bool" where
  "margin len k r \<longleftrightarrow> r < clip_index len (int k) \<or> clip_index len (- int k) \<le> r"

text \<open>Lines 190 to 195: the mask entry of pixel \<open>(r, s)\<close> whose centred vector is \<open>v\<close>.\<close>

definition mask_at :: "nat \<Rightarrow> nat \<Rightarrow> nat \<Rightarrow> nat \<Rightarrow> nat \<Rightarrow> vec \<Rightarrow> bool" where
  "mask_at h w k r s v \<longleftrightarrow>
     fix_zero (l2norm v) \<ge> 1 / 1000000 \<and> \<not> margin h k r \<and> \<not> margin w k s"

text \<open>Lines 197 and 198 for one pixel: multiply by the mask, divide by the norm.\<close>

definition normalize_at :: "nat \<Rightarrow> nat \<Rightarrow> nat \<Rightarrow> nat \<Rightarrow> nat \<Rightarrow> vec \<Rightarrow> vec" where
  "normalize_at h w k r s v =
     map (\<lambda>x. x * (if mask_at h w k r s v then 1 else 0) / fix_zero (l2norm v)) v"

text \<open>
  The whole function.  A negative \<^verbatim>\<open>ncc_size\<close> makes \<^verbatim>\<open>np.zeros\<close> raise ValueError.
  \<^verbatim>\<open>reshape(h, w, c, -1)\<close> raises ValueError when \<open>h * w * c = 0\<close>, since numpy cannot
  infer the free extent of an array without elements.
\<close>

definition preprocess_ncc_impl :: "image \<Rightarrow> int \<Rightarrow> error + image" where
  "preprocess_ncc_impl img ncc_size =
     (if ncc_size < 0 then Inl ValueError
      else case image_shape img of (h, w, c) \<Rightarrow>
        let n = nat ncc_size; k = n div 2 in
        case raw_patches img n of
          Inl e \<Rightarrow> Inl e
        | Inr normalized \<Rightarrow>
            if h * w * c = 0 then Inl ValueError
            else Inr (map (\<lambda>r. map (\<lambda>s.
                   normalize_at h w k r s (center_patch (normalized ! r ! s))) [0..<w]) [0..<h]))"

section \<open>Correlation kernel: \<^verbatim>\<open>compute_ncc_impl\<close>\<close>

text \<open>
  \<^verbatim>\<open>compute_ncc_impl\<close> reshapes its arguments, and what a reshape accepts depends on
  the number of elements only.  Here an array is its shape and its elements in row-major
  order.
\<close>

record ndarray =
  shape :: "nat list"
  data :: "real list"

definition wf_array :: "ndarray \<Rightarrow> bool" where
  "wf_array a \<longleftrightarrow> length (data a) = prod_list (shape a)"

text \<open>\<^verbatim>\<open>a.reshape(new_shape)\<close> with every extent given: ValueError unless the number of
  elements is kept.\<close>

definition reshape :: "ndarray \<Rightarrow> nat list \<Rightarrow> error + ndarray" where
  "reshape a new_shape =
     (if prod_list new_shape = length (data a) then Inr (a\<lparr>shape := new_shape\<rparr>)
      else Inl ValueError)"

text \<open>\<^verbatim>\<open>int(np.sqrt(m))\<close> for a natural number \<open>m\<close>: the integer square root.\<close>

definition int_sqrt :: "nat \<Rightarrow> nat" where
  "int_sqrt m = length (filter (\<lambda>q. q * q \<le> m) [1..<Suc m])"

text \<open>The \<open>p\<close>-th block of \<open>m\<close> consecutive elements: the entries that
  \<^verbatim>\<open>np.sum(..., axis=(2, 3, 4))\<close> adds up for the \<open>p\<close>-th pixel.\<close>

definition block :: "nat \<Rightarrow> real list \<Rightarrow> nat \<Rightarrow> vec" where
  "block m xs p = take m (drop (p * m) xs)"

text \<open>Lines 221 to 226 for one pixel with the vectors \<open>v1\<close> and \<open>v2\<close>.\<close>

definition numerator :: "vec \<Rightarrow> vec \<Rightarrow> real" where
  "numerator v1 v2 = sum_list (map2 (*) v1 v2)"

definition denominator :: "vec \<Rightarrow> vec \<Rightarrow> real" where
  "denominator v1 v2 = sqrt (sum_list (map (\<lambda>x. x ^ 2) v1) * sum_list (map (\<lambda>x. x ^ 2) v2))"

definition ncc_score :: "vec \<Rightarrow> vec \<Rightarrow> real" where
  "ncc_score v1 v2 = numerator v1 v2 / fix_zero (denominator v1 v2)"

definition compute_ncc_impl :: "ndarray \<Rightarrow> ndarray \<Rightarrow> error + ndarray" where
  "compute_ncc_impl image1 image2 =
     (case shape image1 of
        h # w # c # rest \<Rightarrow>
          if c = 0 then Inl ZeroDivisionError
          else
            let ncc_size = int_sqrt (shape image1 ! 2 div c) in
            (case reshape image1 [h, w, c, ncc_size, ncc_size] of
               Inl e \<Rightarrow> Inl e
             | Inr a1 \<Rightarrow>
                 (case reshape image2 [h, w, c, ncc_size, ncc_size] of
                    Inl e \<Rightarrow> Inl e
                  | Inr a2 \<Rightarrow>
                      let m = c * ncc_size * ncc_size in
                      Inr \<lparr>shape = [h, w],
                           data = map (\<lambda>p. ncc_score (block m (data a1) p) (block m (data a2) p))
                                    [0..<h * w]\<rparr>))
      | _ \<Rightarrow> Inl ValueError)"

text \<open>Reading a feature field of shape \<open>[h, w, c]\<close> and a score field of shape \<open>[h, w]\<close> at
  the pixel in row \<open>r\<close> and column \<open>s\<close>.\<close>

definition vec_at :: "ndarray \<Rightarrow> nat \<Rightarrow> nat \<Rightarrow> vec" where
  "vec_at a r s = block (shape a ! 2) (data a) (r * (shape a ! 1) + s)"

definition score_at :: "ndarray \<Rightarrow> nat \<Rightarrow> nat \<Rightarrow> real" where
  "score_at a r s = data a ! (r * (shape a ! 1) + s)"


section \<open>IEEE arithmetic\<close>

text \<open>
  The definitions above read every numpy operation as the exact operation on real
  numbers.  numpy computes in IEEE 754 binary floating point: \<^verbatim>\<open>project_impl\<close>,
  \<^verbatim>\<open>unproject_corners_impl\<close> and \<^verbatim>\<open>compute_ncc_impl\<close> in the format of their arguments
  (binary64 for arrays built from Python floats), \<^verbatim>\<open>preprocess_ncc_impl\<close> in binary32,
  the \<^verbatim>\<open>dtype\<close> of \<^verbatim>\<open>normalized\<close>.  The rest of the definitions is a second
  embedding of the same lines of \<^verbatim>\<open>student.py\<close>, in which every arithmetic operation
  rounds its exact result to the nearest number of the format, ties to even.  It is there
  to decide what the properties proved in exact arithmetic are worth for the running
  code.

  A format is given by its precision \<open>prec\<close>, the number of significant bits, and its
  largest exponent \<open>emax\<close>; the smallest exponent of a normal number is
  \<open>emin = 1 - emax\<close>.
\<close>

record format =
  prec :: nat
  emax :: nat

definition binary32 :: format where "binary32 = \<lparr>prec = 24, emax = 127\<rparr>"
definition binary64 :: format where "binary64 = \<lparr>prec = 53, emax = 1023\<rparr>"

definition emin :: "format \<Rightarrow> int" where
  "emin fmt = 1 - int (emax fmt)"

text \<open>The number of binary digits of an integer.\<close>

function bits :: "int \<Rightarrow> nat" where
  "bits n = (if n \<le> 0 then 0 else Suc (bits (n div 2)))"
  by pat_completeness auto
termination
  by (relation "measure nat") auto

declare bits.simps [simp del]

text \<open>
  The exponent of the binade of a magnitude \<open>a\<close>, that is \<open>e\<close> with
  \<open>2^e \<le> a < 2^(e+1)\<close>, but \<open>emin\<close> for the subnormal range; and the unit in the last
  place there, the spacing of the numbers of the format around \<open>a\<close>.
\<close>

definition exponent :: "format \<Rightarrow> real \<Rightarrow> int" where
  "exponent fmt a =
     max (int (bits \<lfloor>a / 2 powi emin fmt\<rfloor>) - 1 + emin fmt) (emin fmt)"

definition ulp :: "format \<Rightarrow> real \<Rightarrow> real" where
  "ulp fmt a = 2 powi (exponent fmt a - int (prec fmt) + 1)"

text \<open>Rounding to the nearest integer, a tie to the even one.\<close>

definition round_even :: "real \<Rightarrow> int" where
  "round_even q =
     (let f = \<lfloor>q\<rfloor>; d = q - of_int f in
      if d < 1 / 2 then f else if 1 / 2 < d then f + 1 else if even f then f else f + 1)"

definition round_mag :: "format \<Rightarrow> real \<Rightarrow> real" where
  "round_mag fmt a = of_int (round_even (a / ulp fmt a)) * ulp fmt a"

text \<open>
  A floating-point datum is a finite number, an infinity (\<open>Infinity True\<close> is the
  negative one) or NaN.  The two zeros of IEEE arithmetic are one value here: numpy's
  comparisons, the only place where the code could tell them apart, do not.

  \<open>rnd\<close> is the rounding of an exact result: a magnitude that rounds to
  \<open>2^(emax+1)\<close> or more overflows to an infinity, a magnitude below half the smallest
  subnormal number underflows to zero.
\<close>

datatype fp = Finite real | Infinity bool | NaN

definition rnd :: "format \<Rightarrow> real \<Rightarrow> fp" where
  "rnd fmt v =
     (let y = round_mag fmt \<bar>v\<bar> in
      if 2 powi (int (emax fmt) + 1) \<le> y then Infinity (v < 0)
      else Finite (if v < 0 then - y else y))"

text \<open>The arithmetic operations, with the IEEE rules for infinities and NaN; numpy
  returns these values and raises nothing.\<close>

fun fadd :: "format \<Rightarrow> fp \<Rightarrow> fp \<Rightarrow> fp" where
  "fadd fmt NaN y = NaN"
| "fadd fmt x NaN = NaN"
| "fadd fmt (Infinity s) (Infinity t) = (if s = t then Infinity s else NaN)"
| "fadd fmt (Infinity s) (Finite b) = Infinity s"
| "fadd fmt (Finite a) (Infinity t) = Infinity t"
| "fadd fmt (Finite a) (Finite b) = rnd fmt (a + b)"

fun fneg :: "fp \<Rightarrow> fp" where
  "fneg NaN = NaN"
| "fneg (Infinity s) = Infinity (\<not> s)"
| "fneg (Finite a) = Finite (- a)"

definition fsub :: "format \<Rightarrow> fp \<Rightarrow> fp \<Rightarrow> fp" where
  "fsub fmt x y = fadd fmt x (fneg y)"

fun fmul :: "format \<Rightarrow> fp \<Rightarrow> fp \<Rightarrow> fp" where
  "fmul fmt NaN y = NaN"
| "fmul fmt x NaN = NaN"
| "fmul fmt (Infinity s) (Infinity t) = Infinity (s \<noteq> t)"
| "fmul fmt (Infinity s) (Finite b) = (if b = 0 then NaN else Infinity (s \<noteq> (b < 0)))"
| "fmul fmt (Finite a) (Infinity t) = (if a = 0 then NaN else Infinity ((a < 0) \<noteq> t))"
| "fmul fmt (Finite a) (Finite b) = rnd fmt (a * b)"

fun fdiv :: "format \<Rightarrow> fp \<Rightarrow> fp \<Rightarrow> fp" where
  "fdiv fmt NaN y = NaN"
| "fdiv fmt x NaN = NaN"
| "fdiv fmt (Infinity s) (Infinity t) = NaN"
| "fdiv fmt (Infinity s) (Finite b) = Infinity (s \<noteq> (b < 0))"
| "fdiv fmt (Finite a) (Infinity t) = Finite 0"
| "fdiv fmt (Finite a) (Finite b) =
     (if b = 0 then (if a = 0 then NaN else Infinity (a < 0)) else rnd fmt (a / b))"

fun fsqrt :: "format \<Rightarrow> fp \<Rightarrow> fp" where
  "fsqrt fmt NaN = NaN"
| "fsqrt fmt (Infinity s) = (if s then NaN else Infinity False)"
| "fsqrt fmt (Finite a) = (if a < 0 then NaN else rnd fmt (sqrt a))"

text \<open>The comparison \<^verbatim>\<open>x >= y\<close>; it is False when an operand is NaN.\<close>

fun fge :: "fp \<Rightarrow> fp \<Rightarrow> bool" where
  "fge NaN y = False"
| "fge x NaN = False"
| "fge (Infinity s) (Infinity t) = (\<not> s \<or> t)"
| "fge (Infinity s) (Finite b) = (\<not> s)"
| "fge (Finite a) (Infinity t) = t"
| "fge (Finite a) (Finite b) = (b \<le> a)"

text \<open>
  \<^verbatim>\<open>np.sum\<close> and \<^verbatim>\<open>np.mean\<close> along the contiguous last axis add the \<open>n\<close> elements
  pairwise: fewer than eight in sequence from zero; up to 128 in eight running sums that
  are combined as a balanced tree, the remaining elements added in sequence; more by
  splitting at a multiple of eight near the middle.
\<close>

function block_acc :: "format \<Rightarrow> fp list \<Rightarrow> fp list \<Rightarrow> fp list \<times> fp list" where
  "block_acc fmt r xs =
     (if length xs < 8 then (r, xs)
      else block_acc fmt (map2 (fadd fmt) r (take 8 xs)) (drop 8 xs))"
  by pat_completeness auto
termination
  by (relation "measure (\<lambda>(fmt, r, xs). length xs)") auto

declare block_acc.simps [simp del]

function pairwise_sum :: "format \<Rightarrow> fp list \<Rightarrow> fp" where
  "pairwise_sum fmt xs =
     (let n = length xs in
      if n < 8 then foldl (fadd fmt) (Finite 0) xs
      else if n \<le> 128 then
        (case block_acc fmt (take 8 xs) (drop 8 xs) of
           (r, rest) \<Rightarrow>
             foldl (fadd fmt)
               (fadd fmt
                  (fadd fmt (fadd fmt (r ! 0) (r ! 1)) (fadd fmt (r ! 2) (r ! 3)))
                  (fadd fmt (fadd fmt (r ! 4) (r ! 5)) (fadd fmt (r ! 6) (r ! 7))))
               rest)
      else
        let n2 = n div 2 - n div 2 mod 8 in
        fadd fmt (pairwise_sum fmt (take n2 xs)) (pairwise_sum fmt (drop n2 xs)))"
  by pat_completeness auto
termination
  by (relation "measure (\<lambda>(fmt, xs). length xs)") auto

declare pairwise_sum.simps [simp del]

definition np_sum :: "format \<Rightarrow> fp list \<Rightarrow> fp" where
  "np_sum fmt xs = fadd fmt (Finite 0) (pairwise_sum fmt xs)"

subsection \<open>\<^verbatim>\<open>compute_ncc_impl\<close> in IEEE arithmetic\<close>

text \<open>
  Lines 221 to 226 for one pixel.  \<^verbatim>\<open>image1**2\<close> is the product of an entry with
  itself; \<^verbatim>\<open>denominator[denominator == 0] = 1\<close> replaces zeros only, so a NaN or an
  infinite denominator stays.  The score field holds floating-point data; the argument
  arrays are given by the real numbers they hold.
\<close>

record fp_array =
  fshape :: "nat list"
  fdata :: "fp list"

definition fnumerator :: "format \<Rightarrow> fp list \<Rightarrow> fp list \<Rightarrow> fp" where
  "fnumerator fmt v1 v2 = np_sum fmt (map2 (fmul fmt) v1 v2)"

definition fsum_squares :: "format \<Rightarrow> fp list \<Rightarrow> fp" where
  "fsum_squares fmt v = np_sum fmt (map (\<lambda>x. fmul fmt x x) v)"

definition fdenominator :: "format \<Rightarrow> fp list \<Rightarrow> fp list \<Rightarrow> fp" where
  "fdenominator fmt v1 v2 = fsqrt fmt (fmul fmt (fsum_squares fmt v1) (fsum_squares fmt v2))"

definition ffix_zero :: "fp \<Rightarrow> fp" where
  "ffix_zero x = (if x = Finite 0 then Finite 1 else x)"

definition fncc_score :: "format \<Rightarrow> fp list \<Rightarrow> fp list \<Rightarrow> fp" where
  "fncc_score fmt v1 v2 = fdiv fmt (fnumerator fmt v1 v2) (ffix_zero (fdenominator fmt v1 v2))"

definition compute_ncc_fp :: "format \<Rightarrow> ndarray \<Rightarrow> ndarray \<Rightarrow> error + fp_array" where
  "compute_ncc_fp fmt image1 image2 =
     (case shape image1 of
        h # w # c # rest \<Rightarrow>
          if c = 0 then Inl ZeroDivisionError
          else
            let ncc_size = int_sqrt (shape image1 ! 2 div c) in
            (case reshape image1 [h, w, c, ncc_size, ncc_size] of
               Inl e \<Rightarrow> Inl e
             | Inr a1 \<Rightarrow>
                 (case reshape image2 [h, w, c, ncc_size, ncc_size] of
                    Inl e \<Rightarrow> Inl e
                  | Inr a2 \<Rightarrow>
                      let m = c * ncc_size * ncc_size in
                      Inr \<lparr>fshape = [h, w],
                           fdata = map (\<lambda>p. fncc_score fmt (map (rnd fmt) (block m (data a1) p))
                                                          (map (rnd fmt) (block m (data a2) p)))
                                    [0..<h * w]\<rparr>))
      | _ \<Rightarrow> Inl ValueError)"

subsection \<open>\<^verbatim>\<open>preprocess_ncc_impl\<close> in IEEE arithmetic\<close>

text \<open>
  Lines 184 to 198 for one pixel, in the format of \<^verbatim>\<open>normalized\<close>.  \<^verbatim>\<open>np.mean\<close> is the
  sum divided by the number of elements, both in the format of the array;
  \<^verbatim>\<open>np.linalg.norm\<close> along an axis is the square root of the sum of the squares; the
  threshold of line 190 is compared in the format of \<^verbatim>\<open>norm\<close>, so it is \<^verbatim>\<open>1e-6\<close>
  rounded.  The loops that copy the image into \<^verbatim>\<open>normalized\<close> do no arithmetic and are
  those of \<open>raw_patches\<close>; the store rounds the image values to binary32.
\<close>

definition fmean :: "format \<Rightarrow> fp list \<Rightarrow> fp" where
  "fmean fmt xs = fdiv fmt (np_sum fmt xs) (rnd fmt (real (length xs)))"

definition fcenter_patch :: "format \<Rightarrow> real list list list \<Rightarrow> fp list" where
  "fcenter_patch fmt patch =
     concat (map (\<lambda>block. let b = map (rnd fmt) (concat block)
                          in map (\<lambda>x. fsub fmt x (fmean fmt b)) b) patch)"

definition fl2norm :: "format \<Rightarrow> fp list \<Rightarrow> fp" where
  "fl2norm fmt v = fsqrt fmt (np_sum fmt (map (\<lambda>x. fmul fmt x x) v))"

definition fmask_at :: "format \<Rightarrow> nat \<Rightarrow> nat \<Rightarrow> nat \<Rightarrow> nat \<Rightarrow> nat \<Rightarrow> fp list \<Rightarrow> bool" where
  "fmask_at fmt h w k r s v \<longleftrightarrow>
     fge (ffix_zero (fl2norm fmt v)) (rnd fmt (1 / 1000000)) \<and> \<not> margin h k r \<and> \<not> margin w k s"

definition fnormalize_at ::
  "format \<Rightarrow> nat \<Rightarrow> nat \<Rightarrow> nat \<Rightarrow> nat \<Rightarrow> nat \<Rightarrow> fp list \<Rightarrow> fp list" where
  "fnormalize_at fmt h w k r s v =
     map (\<lambda>x. fdiv fmt (fmul fmt x (if fmask_at fmt h w k r s v then Finite 1 else Finite 0))
                 (ffix_zero (fl2norm fmt v))) v"

definition preprocess_ncc_f32 :: "image \<Rightarrow> int \<Rightarrow> error + fp list list list" where
  "preprocess_ncc_f32 img ncc_size =
     (if ncc_size < 0 then Inl ValueError
      else case image_shape img of (h, w, c) \<Rightarrow>
        let n = nat ncc_size; k = n div 2 in
        case raw_patches img n of
          Inl e \<Rightarrow> Inl e
        | Inr normalized \<Rightarrow>
            if h * w * c = 0 then Inl ValueError
            else Inr (map (\<lambda>r. map (\<lambda>s.
                   fnormalize_at binary32 h w k r s (fcenter_patch binary32 (normalized ! r ! s)))
                     [0..<w]) [0..<h]))"

subsection \<open>\<^verbatim>\<open>project_impl\<close> and \<^verbatim>\<open>unproject_corners_impl\<close> in IEEE arithmetic\<close>

text \<open>
  \<^verbatim>\<open>np.dot\<close> of a matrix with a vector: every entry is a sum of rounded products, added
  here from left to right.  A BLAS may add in another order or fuse a product with the
  sum; the result stated below for this model has exact products and a single inexact
  sum in every dot product, so it does not depend on that choice.
\<close>

definition fdot :: "format \<Rightarrow> fp list \<Rightarrow> fp list \<Rightarrow> fp" where
  "fdot fmt xs ys = foldl (fadd fmt) (Finite 0) (map2 (fmul fmt) xs ys)"

definition np_dot_fp :: "format \<Rightarrow> fp list list \<Rightarrow> fp list \<Rightarrow> error + fp list" where
  "np_dot_fp fmt M v =
     (if list_all (\<lambda>row. length row = length v) M
      then Inr (map (\<lambda>row. fdot fmt row v) M)
      else Inl ValueError)"

text \<open>
  \<^verbatim>\<open>np.linalg.inv\<close> solves \<open>M X = I\<close> with LAPACK's \<^verbatim>\<open>gesv\<close>: Gaussian elimination
  with partial pivoting, then back substitution.  The rows below carry the right-hand
  side with them: a row is a row of \<open>M\<close> followed by a row of the identity.
  \<open>idamax\<close> is the first entry of largest magnitude in the pivot column.  The
  multiplier of a row is its entry times the reciprocal of the pivot, or the quotient
  when the pivot is smaller than the smallest normal number.  A pivot that is exactly
  zero makes numpy raise LinAlgError.
\<close>

fun fabs :: "fp \<Rightarrow> fp" where
  "fabs NaN = NaN"
| "fabs (Infinity s) = Infinity False"
| "fabs (Finite a) = Finite \<bar>a\<bar>"

definition fgt :: "fp \<Rightarrow> fp \<Rightarrow> bool" where
  "fgt x y \<longleftrightarrow> fge x y \<and> \<not> fge y x"

definition idamax :: "fp list \<Rightarrow> nat" where
  "idamax xs =
     fst (foldl (\<lambda>(best, m) (i, x). if fgt (fabs x) m then (i, fabs x) else (best, m))
            (0, fabs (hd xs)) (zip [1..<length xs] (tl xs)))"

definition eliminate :: "format \<Rightarrow> nat \<Rightarrow> fp list \<Rightarrow> fp list \<Rightarrow> fp list" where
  "eliminate fmt j prow row =
     (let piv = prow ! j;
          l = (if fge (fabs piv) (Finite (2 powi emin fmt))
               then fmul fmt (row ! j) (fdiv fmt (Finite 1) piv)
               else fdiv fmt (row ! j) piv)
      in map (\<lambda>k. if k < j then row ! k
                   else if k = j then Finite 0
                   else fsub fmt (row ! k) (fmul fmt l (prow ! k)))
           [0..<length row])"

function lu_elim :: "format \<Rightarrow> nat \<Rightarrow> fp list list \<Rightarrow> error + fp list list" where
  "lu_elim fmt j rows =
     (if rows = [] then Inr []
      else
        let p = idamax (map (\<lambda>row. row ! j) rows);
            prow = rows ! p
        in if prow ! j = Finite 0 then Inl LinAlgError
           else (case lu_elim fmt (Suc j) (map (eliminate fmt j prow) (tl (rows[p := hd rows]))) of
                   Inl e \<Rightarrow> Inl e
                 | Inr rest \<Rightarrow> Inr (prow # rest)))"
  by pat_completeness auto
termination
  by (relation "measure (\<lambda>(fmt, j, rows). length rows)") auto

declare lu_elim.simps [simp del]

text \<open>Back substitution on the rows of the upper triangular factor, from the last row
  up; \<open>n\<close> is the order of the matrix, so the right-hand side of a row is \<open>drop n row\<close>.\<close>

function back_subst :: "format \<Rightarrow> nat \<Rightarrow> fp list list \<Rightarrow> fp list list" where
  "back_subst fmt n rows =
     (if rows = [] then []
      else
        let k = length rows - 1;
            x = map (\<lambda>y. fdiv fmt y (last rows ! k)) (drop n (last rows));
            upper = map (\<lambda>row. take n row @
                            map2 (\<lambda>y xk. fsub fmt y (fmul fmt xk (row ! k))) (drop n row) x)
                      (butlast rows)
        in back_subst fmt n upper @ [x])"
  by pat_completeness auto
termination
  by (relation "measure (\<lambda>(fmt, n, rows). length rows)") auto

declare back_subst.simps [simp del]

definition unit_row :: "nat \<Rightarrow> nat \<Rightarrow> fp list" where
  "unit_row n i = map (\<lambda>j. if j = i then Finite 1 else Finite 0) [0..<n]"

definition linalg_inv_fp :: "format \<Rightarrow> mat \<Rightarrow> error + fp list list" where
  "linalg_inv_fp fmt M =
     (let n = length M in
      if \<not> list_all (\<lambda>row. length row = n) M then Inl LinAlgError
      else case lu_elim fmt 0 (map (\<lambda>i. map (rnd fmt) (M ! i) @ unit_row n i) [0..<n]) of
             Inl e \<Rightarrow> Inl e
           | Inr U \<Rightarrow> Inr (back_subst fmt n U))"

text \<open>Lines 25 to 34 for one point: no division raises, a zero third component gives
  infinities or NaN.\<close>

definition project_point_fp :: "format \<Rightarrow> mat \<Rightarrow> mat \<Rightarrow> fp list \<Rightarrow> error + fp list" where
  "project_point_fp fmt K Rt p =
     (if length p < 3 then Inl IndexError
      else case np_dot_fp fmt (map (map (rnd fmt)) Rt) [p ! 0, p ! 1, p ! 2, Finite 1] of
        Inl e \<Rightarrow> Inl e
      | Inr ext \<Rightarrow>
          (case np_dot_fp fmt (map (map (rnd fmt)) K) ext of
             Inl e \<Rightarrow> Inl e
           | Inr int_point \<Rightarrow>
               if length int_point < 3 then Inl IndexError
               else Inr [fdiv fmt (int_point ! 0) (int_point ! 2),
                         fdiv fmt (int_point ! 1) (int_point ! 2)]))"

definition project_fp ::
  "format \<Rightarrow> mat \<Rightarrow> mat \<Rightarrow> fp list list list \<Rightarrow> error + fp list list list" where
  "project_fp fmt K Rt points =
     sequence_err (map (\<lambda>row. sequence_err (map (project_point_fp fmt K Rt) row)) points)"

text \<open>Lines 76 to 102 for one corner, and the whole of \<^verbatim>\<open>unproject_corners_impl\<close>.\<close>

definition unproject_corner_fp ::
  "format \<Rightarrow> fp list list \<Rightarrow> fp list list \<Rightarrow> real \<times> real \<Rightarrow> error + fp list" where
  "unproject_corner_fp fmt K_inv Rt_inv px =
     (case np_dot_fp fmt K_inv [rnd fmt (fst px), rnd fmt (snd px), Finite 1] of
        Inl e \<Rightarrow> Inl e
      | Inr curr_vec \<Rightarrow>
          if length curr_vec < 3 then Inl IndexError
          else (case np_dot_fp fmt Rt_inv [curr_vec ! 0, curr_vec ! 1, curr_vec ! 2, Finite 1] of
                  Inl e \<Rightarrow> Inl e
                | Inr hom \<Rightarrow>
                    if length hom < 4 then Inl IndexError
                    else Inr [fdiv fmt (hom ! 0) (hom ! 3), fdiv fmt (hom ! 1) (hom ! 3),
                              fdiv fmt (hom ! 2) (hom ! 3)]))"

definition unproject_corners_fp ::
  "format \<Rightarrow> mat \<Rightarrow> int \<Rightarrow> int \<Rightarrow> real \<Rightarrow> mat \<Rightarrow> error + fp list list list" where
  "unproject_corners_fp fmt K width height depth Rt =
     (case extend_Rt Rt of
        Inl e \<Rightarrow> Inl e
      | Inr Rt_ext \<Rightarrow>
          (case linalg_inv_fp fmt Rt_ext of
             Inl e \<Rightarrow> Inl e
           | Inr Rt_inv \<Rightarrow>
               (case linalg_inv_fp fmt K of
                  Inl e \<Rightarrow> Inl e
                | Inr K_inv0 \<Rightarrow>
                    let K_inv = map (map (\<lambda>x. fmul fmt x (rnd fmt depth))) K_inv0 in
                    sequence_err
                      (map (\<lambda>row. sequence_err (map (unproject_corner_fp fmt K_inv Rt_inv) row))
                         (corner_pixels width height)))))"


section \<open>Properties of the rounding\<close>

text \<open>The binade of a magnitude is found from the number of digits of an integer.\<close>

lemma bits_eq: "2 ^ k \<le> n \<Longrightarrow> n < 2 ^ Suc k \<Longrightarrow> bits n = Suc k"
proof (induction k arbitrary: n)
  case 0
  then have "n = 1" by simp
  then show ?case by (simp add: bits.simps)
next
  case (Suc k)
  from Suc.prems have "2 ^ k \<le> n div 2" "n div 2 < 2 ^ Suc k" by simp_all
  from Suc.IH[OF this] Suc.prems show ?case
    by (subst bits.simps) (simp add: order.strict_trans2[of 0 "2 ^ Suc k"])
qed

lemma bits_nonpos: "n \<le> 0 \<Longrightarrow> bits n = 0"
  by (simp add: bits.simps)

lemma exponent_eq:
  assumes e: "emin fmt \<le> e" and lo: "2 powi e \<le> a" and hi: "a < 2 powi (e + 1)"
  shows "exponent fmt a = e"
proof -
  define k where "k = nat (e - emin fmt)"
  have k: "int k = e - emin fmt" using e by (simp add: k_def)
  have p: "(0::real) < 2 powi emin fmt" by simp
  have "2 powi e / 2 powi emin fmt \<le> a / (2::real) powi emin fmt"
    using lo p by (simp add: divide_right_mono)
  then have lo': "(2::real) ^ k \<le> a / 2 powi emin fmt"
    by (simp add: power_int_diff[symmetric] k[symmetric])
  have "a / (2::real) powi emin fmt < 2 powi (e + 1) / 2 powi emin fmt"
    using hi p by (simp add: divide_strict_right_mono)
  moreover have "(2::real) powi (e + 1) / 2 powi emin fmt = 2 ^ Suc k"
  proof -
    have "e + 1 - emin fmt = int (Suc k)" using k by simp
    moreover have "(2::real) powi (e + 1 - emin fmt) = 2 powi (e + 1) / 2 powi emin fmt"
      by (rule power_int_diff) simp
    ultimately have "(2::real) powi (e + 1) / 2 powi emin fmt = 2 powi (int (Suc k))"
      by (simp only:)
    then show ?thesis by (simp only: power_int_of_nat)
  qed
  ultimately have hi': "a / 2 powi emin fmt < (2::real) ^ Suc k" by simp
  let ?N = "\<lfloor>a / 2 powi emin fmt\<rfloor>"
  have "2 ^ k \<le> ?N"
    using lo' by (simp add: le_floor_iff)
  moreover have "?N < 2 ^ Suc k"
    using hi' by (simp add: floor_less_iff)
  ultimately have "bits ?N = Suc k" by (rule bits_eq)
  then show ?thesis
    using e by (simp add: exponent_def k)
qed

lemma exponent_subnormal:
  assumes "a < 2 powi emin fmt"
  shows "exponent fmt a = emin fmt"
proof -
  have "a / 2 powi emin fmt < 1" using assms by simp
  then have "\<lfloor>a / 2 powi emin fmt\<rfloor> \<le> 0" by (simp add: floor_less_iff)
  then show ?thesis by (simp add: exponent_def bits_nonpos)
qed

lemma round_even_near:
  assumes "\<bar>q - of_int m\<bar> < 1 / 2"
  shows "round_even q = m"
proof (cases "of_int m \<le> q")
  case True
  with assms have "\<lfloor>q\<rfloor> = m" by (intro floor_unique) auto
  with assms True show ?thesis by (simp add: round_even_def Let_def)
next
  case False
  with assms have f: "\<lfloor>q\<rfloor> = m - 1" by (intro floor_unique) auto
  with assms False show ?thesis by (auto simp: round_even_def Let_def)
qed

text \<open>Evaluating a rounding: the binade \<open>e\<close> of the magnitude and the integer \<open>m\<close> of the
  nearest multiple of the unit in the last place are supplied, the rest is arithmetic.\<close>

lemma round_mag_nearest:
  assumes e: "emin fmt \<le> e" and hi: "a < 2 powi (e + 1)"
    and lo: "2 powi e \<le> a \<or> e = emin fmt"
    and u: "u = 2 powi (e - int (prec fmt) + 1)"
    and near: "\<bar>a - of_int m * u\<bar> < u / 2"
  shows "round_mag fmt a = of_int m * u"
proof -
  have "exponent fmt a = e"
  proof (cases "2 powi e \<le> a")
    case True
    then show ?thesis by (rule exponent_eq[OF e _ hi])
  next
    case False
    with lo have "e = emin fmt" "a < 2 powi emin fmt" by simp_all
    then show ?thesis by (simp add: exponent_subnormal)
  qed
  then have ulp: "ulp fmt a = u" by (simp add: ulp_def u)
  have pos: "0 < u" by (simp add: u)
  have "\<bar>a / u - of_int m\<bar> = \<bar>a - of_int m * u\<bar> / u"
    using pos by (simp add: field_simps abs_if)
  also have "\<dots> < 1 / 2" using near pos by (simp add: field_simps)
  finally have "round_even (a / u) = m" by (rule round_even_near)
  then show ?thesis by (simp add: round_mag_def ulp)
qed

lemma rnd_nearest:
  assumes "emin fmt \<le> e" and "\<bar>v\<bar> < 2 powi (e + 1)"
    and "2 powi e \<le> \<bar>v\<bar> \<or> e = emin fmt"
    and "u = 2 powi (e - int (prec fmt) + 1)"
    and "\<bar>\<bar>v\<bar> - of_int m * u\<bar> < u / 2"
  shows "rnd fmt v =
           (if 2 powi (int (emax fmt) + 1) \<le> of_int m * u then Infinity (v < 0)
            else Finite (if v < 0 then - (of_int m * u) else of_int m * u))"
  by (simp add: rnd_def round_mag_nearest[OF assms] Let_def)

lemma rnd_zero: "rnd fmt 0 = Finite 0"
proof -
  have u: "(0::real) < 2 powi (emin fmt - int (prec fmt) + 1)"
    by (rule zero_less_power_int) simp
  have "round_mag fmt 0 = of_int 0 * 2 powi (emin fmt - int (prec fmt) + 1)"
    using u by (intro round_mag_nearest[where e = "emin fmt"]) simp_all
  then have "round_mag fmt 0 = 0" by simp
  moreover have "(0::real) < 2 powi (int (emax fmt) + 1)"
    by (rule zero_less_power_int) simp
  ultimately show ?thesis by (simp add: rnd_def not_le)
qed

lemmas fp_eval = binary32_def binary64_def emin_def power_int_def power_one_over

text \<open>The roundings that occur in the computations below.  A rounding is settled by
  naming the binade, the unit in the last place and the integer multiple of it that is
  nearest; what is left is a comparison of rational numbers.\<close>

lemma r_2p700: "rnd binary64 (2 ^ 700) = Finite (2 ^ 700)"
  by (rule rnd_nearest[where e = 700 and m = "2 ^ 52" and u = "2 ^ 648", THEN trans])
     (simp_all add: fp_eval)

lemma r_2p1400: "rnd binary64 (2 ^ 1400) = Infinity False"
  by (rule rnd_nearest[where e = 1400 and m = "2 ^ 52" and u = "2 ^ 1348", THEN trans])
     (simp_all add: fp_eval)

lemma r32_x: "rnd binary32 (8192819 / 8192) = Finite (8192819 / 8192)"
  by (rule rnd_nearest[where e = "9" and m = "16385638" and u = "1 / 16384", THEN trans])
     (simp_all add: fp_eval)

lemma r32_2x: "rnd binary32 (8192819 / 4096) = Finite (8192819 / 4096)"
  by (rule rnd_nearest[where e = "10" and m = "16385638" and u = "1 / 8192", THEN trans])
     (simp_all add: fp_eval)

lemma r32_4x: "rnd binary32 (8192819 / 2048) = Finite (8192819 / 2048)"
  by (rule rnd_nearest[where e = "11" and m = "16385638" and u = "1 / 4096", THEN trans])
     (simp_all add: fp_eval)

lemma r32_8x: "rnd binary32 (8192819 / 1024) = Finite (8192819 / 1024)"
  by (rule rnd_nearest[where e = "12" and m = "16385638" and u = "1 / 2048", THEN trans])
     (simp_all add: fp_eval)

lemma r32_9x: "rnd binary32 (73735371 / 8192) = Finite (9216921 / 1024)"
  by (rule rnd_nearest[where e = "13" and m = "9216921" and u = "1 / 1024", THEN trans])
     (simp_all add: fp_eval)

lemma r32_S: "rnd binary32 (9216921 / 1024) = Finite (9216921 / 1024)"
  by (rule rnd_nearest[where e = "13" and m = "9216921" and u = "1 / 1024", THEN trans])
     (simp_all add: fp_eval)

lemma r32_9: "rnd binary32 (9) = Finite (9)"
  by (rule rnd_nearest[where e = "3" and m = "9437184" and u = "1 / 1048576", THEN trans])
     (simp_all add: fp_eval)

lemma r32_mean: "rnd binary32 (3072307 / 3072) = Finite (16385637 / 16384)"
  by (rule rnd_nearest[where e = "9" and m = "16385637" and u = "1 / 16384", THEN trans])
     (simp_all add: fp_eval)

lemma r32_d: "rnd binary32 (1 / 16384) = Finite (1 / 16384)"
  by (rule rnd_nearest[where e = "- 14" and m = "8388608" and u = "1 / 137438953472", THEN trans])
     (simp_all add: fp_eval)

lemma r32_dd: "rnd binary32 (1 / 268435456) = Finite (1 / 268435456)"
  by (rule rnd_nearest[where e = "- 28" and m = "8388608" and u = "1 / 2251799813685248", THEN trans])
     (simp_all add: fp_eval)

lemma r32_2dd: "rnd binary32 (1 / 134217728) = Finite (1 / 134217728)"
  by (rule rnd_nearest[where e = "- 27" and m = "8388608" and u = "1 / 1125899906842624", THEN trans])
     (simp_all add: fp_eval)

lemma r32_4dd: "rnd binary32 (1 / 67108864) = Finite (1 / 67108864)"
  by (rule rnd_nearest[where e = "- 26" and m = "8388608" and u = "1 / 562949953421312", THEN trans])
     (simp_all add: fp_eval)

lemma r32_8dd: "rnd binary32 (1 / 33554432) = Finite (1 / 33554432)"
  by (rule rnd_nearest[where e = "- 25" and m = "8388608" and u = "1 / 281474976710656", THEN trans])
     (simp_all add: fp_eval)

lemma r32_9dd: "rnd binary32 (9 / 268435456) = Finite (9 / 268435456)"
  by (rule rnd_nearest[where e = "- 25" and m = "9437184" and u = "1 / 281474976710656", THEN trans])
     (simp_all add: fp_eval)

lemma r32_norm: "rnd binary32 (3 / 16384) = Finite (3 / 16384)"
  by (rule rnd_nearest[where e = "- 13" and m = "12582912" and u = "1 / 68719476736", THEN trans])
     (simp_all add: fp_eval)

lemma r32_thr: "rnd binary32 (1 / 1000000) = Finite (8796093 / 8796093022208)"
  by (rule rnd_nearest[where e = "- 20" and m = "8796093" and u = "1 / 8796093022208", THEN trans])
     (simp_all add: fp_eval)

lemma r32_third: "rnd binary32 (1 / 3) = Finite (11184811 / 33554432)"
  by (rule rnd_nearest[where e = "- 2" and m = "11184811" and u = "1 / 33554432", THEN trans])
     (simp_all add: fp_eval)

lemma r32_1: "rnd binary32 (1) = Finite (1)"
  by (rule rnd_nearest[where e = "0" and m = "8388608" and u = "1 / 8388608", THEN trans])
     (simp_all add: fp_eval)

lemma r64_1: "rnd binary64 (1) = Finite (1)"
  by (rule rnd_nearest[where e = "0" and m = "4503599627370496" and u = "1 / 4503599627370496", THEN trans])
     (simp_all add: fp_eval)

lemma r64_2: "rnd binary64 (2) = Finite (2)"
  by (rule rnd_nearest[where e = "1" and m = "4503599627370496" and u = "1 / 2251799813685248", THEN trans])
     (simp_all add: fp_eval)

lemma r64_a: "rnd binary64 (1152921504606846976) = Finite (1152921504606846976)"
  by (rule rnd_nearest[where e = "60" and m = "4503599627370496" and u = "256", THEN trans])
     (simp_all add: fp_eval)

lemma r64_ma: "rnd binary64 (- (1152921504606846976)) = Finite (- (1152921504606846976))"
  by (rule rnd_nearest[where e = "60" and m = "4503599627370496" and u = "256", THEN trans])
     (simp_all add: fp_eval)

lemma r64_2ma: "rnd binary64 (- (1152921504606846974)) = Finite (- (1152921504606846976))"
  by (rule rnd_nearest[where e = "59" and m = "9007199254740992" and u = "128", THEN trans])
     (simp_all add: fp_eval)

lemma r64_t: "rnd binary64 (1 / 2 ^ 540) = Finite (1 / 2 ^ 540)"
  by (rule rnd_nearest[where e = "- 540" and m = "4503599627370496" and u = "1 / 2 ^ 592", THEN trans])
     (simp_all add: fp_eval)

lemma r64_tt: "rnd binary64 (1 / 2 ^ 1080) = Finite (0)"
  by (rule rnd_nearest[where e = "- 1022" and m = "0" and u = "1 / 2 ^ 1074", THEN trans])
     (simp_all add: fp_eval)

lemma r64_3: "rnd binary64 (3) = Finite (3)"
  by (rule rnd_nearest[where e = "1" and m = "6755399441055744" and u = "1 / 2251799813685248", THEN trans])
     (simp_all add: fp_eval)

lemma r64_third: "rnd binary64 (1 / 3) = Finite (6004799503160661 / 18014398509481984)"
  by (rule rnd_nearest[where e = "- 2" and m = "6004799503160661" and u = "1 / 18014398509481984", THEN trans])
     (simp_all add: fp_eval)

lemma r64_f: "rnd binary64 (6004799503160661 / 18014398509481984) = Finite (6004799503160661 / 18014398509481984)"
  by (rule rnd_nearest[where e = "- 2" and m = "6004799503160661" and u = "1 / 18014398509481984", THEN trans])
     (simp_all add: fp_eval)

lemma r64_mf: "rnd binary64 (- (6004799503160661 / 18014398509481984)) = Finite (- (6004799503160661 / 18014398509481984))"
  by (rule rnd_nearest[where e = "- 2" and m = "6004799503160661" and u = "1 / 18014398509481984", THEN trans])
     (simp_all add: fp_eval)

lemmas r32 = r32_x r32_2x r32_4x r32_8x r32_9x r32_S r32_9 r32_mean r32_d r32_dd r32_2dd r32_4dd
  r32_8dd r32_9dd r32_norm r32_thr r32_third r32_1

text \<open>Pairwise summation of short vectors.\<close>

lemma pairwise_sum_short:
  "length xs < 8 \<Longrightarrow> pairwise_sum fmt xs = foldl (fadd fmt) (Finite 0) xs"
  by (simp add: pairwise_sum.simps)

lemma block_acc_short: "length xs < 8 \<Longrightarrow> block_acc fmt r xs = (r, xs)"
  by (simp add: block_acc.simps)

lemma pairwise_sum_9:
  "pairwise_sum fmt [a0, a1, a2, a3, a4, a5, a6, a7, a8] =
     fadd fmt
       (fadd fmt (fadd fmt (fadd fmt a0 a1) (fadd fmt a2 a3))
                 (fadd fmt (fadd fmt a4 a5) (fadd fmt a6 a7))) a8"
  by (simp add: pairwise_sum.simps block_acc_short)

text \<open>Unfolding the elimination and the back substitution on a concrete matrix, and two
  inverses that are computed without a rounding error: the identity of order four and an
  upper triangular matrix with unit diagonal.\<close>

lemma lu_elim_Nil: "lu_elim fmt j [] = Inr []"
  by (simp add: lu_elim.simps)

lemma lu_elim_Cons:
  "lu_elim fmt j (r # rs) =
     (let p = idamax (map (\<lambda>row. row ! j) (r # rs));
          prow = (r # rs) ! p
      in if prow ! j = Finite 0 then Inl LinAlgError
         else (case lu_elim fmt (Suc j) (map (eliminate fmt j prow) (tl ((r # rs)[p := r]))) of
                 Inl e \<Rightarrow> Inl e
               | Inr rest \<Rightarrow> Inr (prow # rest)))"
  by (subst lu_elim.simps) (simp add: Let_def)

lemma back_subst_Nil: "back_subst fmt n [] = []"
  by (simp add: back_subst.simps)

lemma back_subst_snoc:
  "back_subst fmt n (rows @ [r]) =
     (let k = length rows;
          x = map (\<lambda>y. fdiv fmt y (r ! k)) (drop n r);
          upper = map (\<lambda>row. take n row @
                          map2 (\<lambda>y xk. fsub fmt y (fmul fmt xk (row ! k))) (drop n row) x)
                    rows
      in back_subst fmt n upper @ [x])"
  by (subst back_subst.simps) (simp add: Let_def)

lemmas lu_eval = linalg_inv_fp_def unit_row_def lu_elim_Cons lu_elim_Nil idamax_def fgt_def
  eliminate_def fsub_def rnd_zero fp_eval upt_rec Let_def
  back_subst_snoc[of _ _ "[a, b, c]" for a b c, simplified]
  back_subst_snoc[of _ _ "[a, b]" for a b, simplified]
  back_subst_snoc[of _ _ "[a]" for a, simplified]
  back_subst_snoc[of _ _ "[]", simplified] back_subst_Nil

lemma inv_id4:
  "linalg_inv_fp binary64 [[1, 0, 0, 0], [0, 1, 0, 0], [0, 0, 1, 0], [0, 0, 0, 1]] =
     Inr [[Finite 1, Finite 0, Finite 0, Finite 0], [Finite 0, Finite 1, Finite 0, Finite 0],
          [Finite 0, Finite 0, Finite 1, Finite 0], [Finite 0, Finite 0, Finite 0, Finite 1]]"
  using r64_1
  by (simp add: linalg_inv_fp_def unit_row_def lu_elim_Cons lu_elim_Nil idamax_def fgt_def
      eliminate_def fsub_def rnd_zero fp_eval upt_rec Let_def
      back_subst_snoc[of _ _ "[a, b, c]" for a b c, simplified]
      back_subst_snoc[of _ _ "[a, b]" for a b, simplified]
      back_subst_snoc[of _ _ "[a]" for a, simplified]
      back_subst_snoc[of _ _ "[]", simplified] back_subst_Nil)

lemma inv_K_far:
  "linalg_inv_fp binary64 [[1, 0, 2 ^ 60], [0, 1, 0], [0, 0, 1]] =
     Inr [[Finite 1, Finite 0, Finite (- (2 ^ 60))], [Finite 0, Finite 1, Finite 0],
          [Finite 0, Finite 0, Finite 1]]"
  using r64_1 r64_a r64_ma
  by (simp add: lu_eval)


section \<open>Properties of the geometry kernel\<close>

subsection \<open>Determinants and inverses of the shapes the kernel uses\<close>


lemma det3: "det [[a,b,c],[d,e,f],[g,h,i]] = a*(e*i - f*h) - b*(d*i - f*g) + c*(d*h - e*g)"
  by (simp add: del_at_def upt_rec algebra_simps)

lemma det4_affine: "det [[a,b,c,t],[d,e,f,u],[g,h,i,v],[0,0,0,1]] = det [[a,b,c],[d,e,f],[g,h,i]]"
  by (simp add: del_at_def upt_rec algebra_simps)

lemma linalg_inv_nonsingular: "linalg_inv M = Inr Mi \<Longrightarrow> det M \<noteq> 0"
  by (auto simp: linalg_inv_def Let_def split: if_splits)

lemma linalg_inv_adjugate:
  "linalg_inv M = Inr Mi \<Longrightarrow> det M = D \<Longrightarrow>
   Mi = map (\<lambda>i. map (\<lambda>j. (- 1) ^ (i + j) * det (minor_mat j i M) / D) [0..<length M]) [0..<length M]"
  by (auto simp: linalg_inv_def Let_def split: if_splits)

lemma linalg_inv_3x3:
  assumes "linalg_inv [[a,b,c],[d,e,f],[g,h,i]] = Inr Ki" and "det [[a,b,c],[d,e,f],[g,h,i]] = D"
  shows "Ki = [[(e*i - f*h) / D, (c*h - b*i) / D, (b*f - c*e) / D],
               [(f*g - d*i) / D, (a*i - c*g) / D, (c*d - a*f) / D],
               [(d*h - e*g) / D, (b*g - a*h) / D, (a*e - b*d) / D]]"
  unfolding linalg_inv_adjugate[OF assms]
  by (simp add: upt_rec minor_mat_def del_at_def diff_divide_distrib)

lemma inv3_right:
  assumes "linalg_inv [[a,b,c],[d,e,f],[g,h,i]] = Inr Ki"
  shows "\<exists>q0 q1 q2. np_dot Ki [x,y,z] = Inr [q0,q1,q2] \<and> np_dot [[a,b,c],[d,e,f],[g,h,i]] [q0,q1,q2] = Inr [x,y,z]"
proof -
  define D where "D = det [[a,b,c],[d,e,f],[g,h,i]]"
  have D0: "D \<noteq> 0" unfolding D_def by (rule linalg_inv_nonsingular[OF assms])
  note L = linalg_inv_3x3[OF assms D_def[symmetric]]
  have D3: "a*(e*i - f*h) - b*(d*i - f*g) + c*(d*h - e*g) = D" unfolding D_def by (rule det3[symmetric])
  have r0: "a * ((e*i - f*h) * x + (c*h - b*i) * y + (b*f - c*e) * z) + b * ((f*g - d*i) * x + (a*i - c*g) * y + (c*d - a*f) * z) 
    + c * ((d*h - e*g) * x + (b*g - a*h) * y + (a*e - b*d) * z) = D * x"
    unfolding D3[symmetric] by (simp add: algebra_simps)
  have r1: "d * ((e*i - f*h) * x + (c*h - b*i) * y + (b*f - c*e) * z) + e * ((f*g - d*i) * x + (a*i - c*g) * y + (c*d - a*f) * z) 
    + f * ((d*h - e*g) * x + (b*g - a*h) * y + (a*e - b*d) * z) = D * y"
    unfolding D3[symmetric] by (simp add: algebra_simps)
  have r2: "g * ((e*i - f*h) * x + (c*h - b*i) * y + (b*f - c*e) * z) + h * ((f*g - d*i) * x + (a*i - c*g) * y + (c*d - a*f) * z) 
    + i * ((d*h - e*g) * x + (b*g - a*h) * y + (a*e - b*d) * z) = D * z"
    unfolding D3[symmetric] by (simp add: algebra_simps)
  have e: "\<And>p q r s t u. p * (q / D) + (r * (s / D) + t * (u / D)) = (p * q + r * s + t * u) / D"
    by (simp add: add_divide_distrib)
  have e': "\<And>p q r s t u. q * p / D + (s * r / D + u * t / D) = (q * p + s * r + u * t) / D"
    by (simp add: add_divide_distrib)
  show ?thesis
    unfolding L np_dot_def using D0 r0 r1 r2
    by (simp add: e')
qed


lemma linalg_inv_4x4:
  assumes "linalg_inv [[a,b,c,t],[d,e,f,u],[g,h,i,v],[0,0,0,1]] = Inr Ri"
    and "det [[a,b,c,t],[d,e,f,u],[g,h,i,v],[0,0,0,1]] = D"
  shows "Ri = [[(e*i - f*h) / D, (c*h - b*i) / D, (b*f - c*e) / D,
                  (c*(e*v - u*h) - b*(f*v - u*i) - t*(e*i - f*h)) / D],
               [(f*g - d*i) / D, (a*i - c*g) / D, (c*d - a*f) / D,
                  (a*(f*v - u*i) - c*(d*v - u*g) + t*(d*i - f*g)) / D],
               [(d*h - e*g) / D, (b*g - a*h) / D, (a*e - b*d) / D,
                  (b*(d*v - u*g) - a*(e*v - u*h) - t*(d*h - e*g)) / D],
               [0, 0, 0, 1]]"
proof -
  have D0: "D \<noteq> 0" using linalg_inv_nonsingular[OF assms(1)] assms(2) by simp
  have D3: "D = a*(e*i - f*h) - b*(d*i - f*g) + c*(d*h - e*g)"
    using assms(2) unfolding det4_affine det3 by (rule sym)
  have one: "a * (e * i - f * h) / D - (b * (d * i - f * g) / D - c * (d * h - e * g) / D) = 1"
  proof -
    have "a * (e * i - f * h) / D - (b * (d * i - f * g) / D - c * (d * h - e * g) / D)
        = (a*(e*i - f*h) - b*(d*i - f*g) + c*(d*h - e*g)) / D"
      by (simp add: diff_divide_distrib add_divide_distrib)
    also have "\<dots> = 1" using D0 D3 by simp
    finally show ?thesis .
  qed
  show ?thesis
    unfolding linalg_inv_adjugate[OF assms]
    by (simp add: upt_rec minor_mat_def del_at_def diff_divide_distrib add_divide_distrib one)
qed


lemma list3: "length xs = 3 \<Longrightarrow> \<exists>a b c. xs = [a,b,c]"
  by (auto simp: length_Suc_conv numeral_3_eq_3)

lemma list4: "length xs = 4 \<Longrightarrow> \<exists>a b c d. xs = [a,b,c,d]"
  by (auto simp: length_Suc_conv numeral_eq_Suc)

lemma shape_3x3:
  assumes "has_shape 3 3 K"
  obtains a b c d e f g h i where "K = [[a,b,c],[d,e,f],[g,h,i]]"
proof -
  from assms obtain r0 r1 r2 where K: "K = [r0, r1, r2]"
    using list3 unfolding has_shape_def by blast
  with assms have "length r0 = 3" "length r1 = 3" "length r2 = 3"
    by (simp_all add: has_shape_def)
  then show thesis using K that by (metis list3)
qed

lemma shape_3x4:
  assumes "has_shape 3 4 Rt"
  obtains a b c t d e f u g h i v where "Rt = [[a,b,c,t],[d,e,f,u],[g,h,i,v]]"
proof -
  from assms obtain r0 r1 r2 where K: "Rt = [r0, r1, r2]"
    using list3 unfolding has_shape_def by blast
  with assms have "length r0 = 4" "length r1 = 4" "length r2 = 4"
    by (simp_all add: has_shape_def)
  then show thesis using K that by (metis list4)
qed

lemma extend_Rt_3x4:
  "extend_Rt [[a,b,c,t],[d,e,f,u],[g,h,i,v]] = Inr [[a,b,c,t],[d,e,f,u],[g,h,i,v],[0,0,0,1]]"
  by (simp add: extend_Rt_def set_entry_def pad_row_def ncols_def numeral_eq_Suc)

lemma affine_right_inverse:
  assumes "linalg_inv [[a,b,c,t],[d,e,f,u],[g,h,i,v],[0,0,0,1]] = Inr Ri"
  shows "\<exists>X0 X1 X2. np_dot Ri [x,y,z,1] = Inr [X0,X1,X2,1] \<and>
           np_dot [[a,b,c,t],[d,e,f,u],[g,h,i,v]] [X0,X1,X2,1] = Inr [x,y,z]"
proof -
  define D where "D = det [[a,b,c,t],[d,e,f,u],[g,h,i,v],[0,0,0,1]]"
  have D0: "D \<noteq> 0" unfolding D_def by (rule linalg_inv_nonsingular[OF assms])
  note L = linalg_inv_4x4[OF assms D_def[symmetric]]
  have D3: "a*(e*i - f*h) - b*(d*i - f*g) + c*(d*h - e*g) = D"
    unfolding D_def det4_affine det3 ..
  define N0 where "N0 = (e*i - f*h) * x + (c*h - b*i) * y + (b*f - c*e) * z
                        + (c*(e*v - u*h) - b*(f*v - u*i) - t*(e*i - f*h))"
  define N1 where "N1 = (f*g - d*i) * x + (a*i - c*g) * y + (c*d - a*f) * z
                        + (a*(f*v - u*i) - c*(d*v - u*g) + t*(d*i - f*g))"
  define N2 where "N2 = (d*h - e*g) * x + (b*g - a*h) * y + (a*e - b*d) * z
                        + (b*(d*v - u*g) - a*(e*v - u*h) - t*(d*h - e*g))"
  have dot: "np_dot Ri [x,y,z,1] = Inr [N0 / D, N1 / D, N2 / D, 1]"
    unfolding L np_dot_def N0_def N1_def N2_def
    by (simp add: add_divide_distrib)
  have r0: "a * N0 + b * N1 + c * N2 = D * (x - t)"
    unfolding D3[symmetric] N0_def N1_def N2_def by (simp add: algebra_simps)
  have r1: "d * N0 + e * N1 + f * N2 = D * (y - u)"
    unfolding D3[symmetric] N0_def N1_def N2_def by (simp add: algebra_simps)
  have r2: "g * N0 + h * N1 + i * N2 = D * (z - v)"
    unfolding D3[symmetric] N0_def N1_def N2_def by (simp add: algebra_simps)
  have c0: "a * (N0 / D) + (b * (N1 / D) + (c * (N2 / D) + t)) = x"
  proof -
    have "a * (N0 / D) + (b * (N1 / D) + (c * (N2 / D) + t)) = (a * N0 + b * N1 + c * N2) / D + t"
      by (simp add: add_divide_distrib)
    also have "\<dots> = x" unfolding r0 using D0 by simp
    finally show ?thesis .
  qed
  have c1: "d * (N0 / D) + (e * (N1 / D) + (f * (N2 / D) + u)) = y"
  proof -
    have "d * (N0 / D) + (e * (N1 / D) + (f * (N2 / D) + u)) = (d * N0 + e * N1 + f * N2) / D + u"
      by (simp add: add_divide_distrib)
    also have "\<dots> = y" unfolding r1 using D0 by simp
    finally show ?thesis .
  qed
  have c2: "g * (N0 / D) + (h * (N1 / D) + (i * (N2 / D) + v)) = z"
  proof -
    have "g * (N0 / D) + (h * (N1 / D) + (i * (N2 / D) + v)) = (g * N0 + h * N1 + i * N2) / D + v"
      by (simp add: add_divide_distrib)
    also have "\<dots> = z" unfolding r2 using D0 by simp
    finally show ?thesis .
  qed
  have "np_dot [[a,b,c,t],[d,e,f,u],[g,h,i,v]] [N0 / D, N1 / D, N2 / D, 1] = Inr [x,y,z]"
    unfolding np_dot_def using c0 c1 c2 by simp
  with dot show ?thesis by blast
qed


lemma scaled_inverse_3x3:
  assumes "linalg_inv [[a,b,c],[d,e,f],[g,h,i]] = Inr Ki"
  shows "\<exists>q0 q1 q2. np_dot (scale_mat depth Ki) [x,y,1] = Inr [q0 * depth, q1 * depth, q2 * depth] \<and>
           np_dot [[a,b,c],[d,e,f],[g,h,i]] [q0 * depth, q1 * depth, q2 * depth]
             = Inr [depth * x, depth * y, depth]"
proof -
  from inv3_right[OF assms, of x y 1] obtain q0 q1 q2 where
    q: "np_dot Ki [x,y,1] = Inr [q0,q1,q2]"
    and K: "np_dot [[a,b,c],[d,e,f],[g,h,i]] [q0,q1,q2] = Inr [x,y,1]"
    by blast
  have Ki3: "has_shape 3 3 Ki"
    using linalg_inv_3x3[OF assms refl] by (simp add: has_shape_def)
  then obtain a' b' c' d' e' f' g' h' i' where Ki: "Ki = [[a',b',c'],[d',e',f'],[g',h',i']]"
    by (rule shape_3x3)
  have 1: "np_dot (scale_mat depth Ki) [x,y,1] = Inr [q0 * depth, q1 * depth, q2 * depth]"
    using q unfolding Ki np_dot_def scale_mat_def by (auto simp: algebra_simps)
  have 2: "np_dot [[a,b,c],[d,e,f],[g,h,i]] [q0 * depth, q1 * depth, q2 * depth]
             = Inr [depth * x, depth * y, depth]"
  proof -
    have lin: "\<And>p q r. p * (q0 * depth) + (q * (q1 * depth) + r * (q2 * depth))
                 = depth * (p * q0 + (q * q1 + r * q2))"
      by (simp add: algebra_simps)
    from K have "a * q0 + (b * q1 + c * q2) = x" "d * q0 + (e * q1 + f * q2) = y"
      "g * q0 + (h * q1 + i * q2) = 1"
      by (simp_all add: np_dot_def)
    then show ?thesis
      by (simp add: np_dot_def lin)
  qed
  from 1 2 show ?thesis by blast
qed

text \<open>One corner: unprojecting a pixel and looking at the result from the camera.\<close>

lemma corner_roundtrip:
  assumes K: "has_shape 3 3 K" and Rt: "has_shape 3 4 Rt"
    and E: "extend_Rt Rt = Inr E"
    and Ri: "linalg_inv E = Inr Ri" and Ki: "linalg_inv K = Inr Ki"
  shows "\<exists>X q0 q1 q2. unproject_corner (scale_mat depth Ki) Ri (x, y) = Inr X \<and>
           ext_point Rt X = Inr [q0 * depth, q1 * depth, q2 * depth] \<and>
           np_dot K [q0 * depth, q1 * depth, q2 * depth] = Inr [depth * x, depth * y, depth]"
proof -
  from K obtain a b c d e f g h i where K': "K = [[a,b,c],[d,e,f],[g,h,i]]"
    by (rule shape_3x3)
  from Rt obtain a' b' c' t d' e' f' u g' h' i' v
    where Rt': "Rt = [[a',b',c',t],[d',e',f',u],[g',h',i',v]]"
    by (rule shape_3x4)
  from E have E': "E = [[a',b',c',t],[d',e',f',u],[g',h',i',v],[0,0,0,1]]"
    unfolding Rt' extend_Rt_3x4 by simp
  from scaled_inverse_3x3[OF Ki[unfolded K'], of depth x y] obtain q0 q1 q2 where
    q: "np_dot (scale_mat depth Ki) [x,y,1] = Inr [q0 * depth, q1 * depth, q2 * depth]"
    and Kq: "np_dot K [q0 * depth, q1 * depth, q2 * depth] = Inr [depth * x, depth * y, depth]"
    unfolding K' by blast
  from affine_right_inverse[OF Ri[unfolded E'], of "q0 * depth" "q1 * depth" "q2 * depth"]
  obtain X0 X1 X2 where
    X: "np_dot Ri [q0 * depth, q1 * depth, q2 * depth, 1] = Inr [X0,X1,X2,1]"
    and RX: "np_dot Rt [X0,X1,X2,1] = Inr [q0 * depth, q1 * depth, q2 * depth]"
    unfolding Rt' by blast
  have "unproject_hom (scale_mat depth Ki) Ri (x, y) = Inr [X0,X1,X2,1]"
    by (simp add: unproject_hom_def q X)
  then have 1: "unproject_corner (scale_mat depth Ki) Ri (x, y) = Inr [X0,X1,X2]"
    by (simp add: unproject_corner_def)
  have 2: "ext_point Rt [X0,X1,X2] = Inr [q0 * depth, q1 * depth, q2 * depth]"
    by (simp add: ext_point_def RX)
  from 1 2 Kq show ?thesis by blast
qed

lemma corner_project:
  assumes "ext_point Rt X = Inr [q0 * depth, q1 * depth, q2 * depth]"
    and "np_dot K [q0 * depth, q1 * depth, q2 * depth] = Inr [depth * x, depth * y, depth]"
    and "depth \<noteq> 0"
  shows "project_point K Rt X = Inr [x, y]"
  using assms by (simp add: project_point_def)

lemma corner_z_nonzero:
  assumes "ext_point Rt X = Inr [q0 * depth, q1 * depth, q2 * depth]" and "z_nonzero Rt X"
  shows "depth \<noteq> 0"
  using assms by (auto simp: z_nonzero_def)


lemma linalg_inv_total:
  assumes "has_shape n n M" and "det M \<noteq> 0"
  shows "\<exists>Mi. linalg_inv M = Inr Mi"
  using assms by (simp add: linalg_inv_def has_shape_def Let_def)

lemma extend_Rt_append:
  assumes "has_shape 3 4 Rt"
  shows "extend_Rt Rt = Inr (Rt @ [[0,0,0,1]])" and "has_shape 4 4 (Rt @ [[0,0,0,1]])"
proof -
  from assms obtain a b c t d e f u g h i v
    where Rt: "Rt = [[a,b,c,t],[d,e,f,u],[g,h,i,v]]"
    by (rule shape_3x4)
  show "extend_Rt Rt = Inr (Rt @ [[0,0,0,1]])"
    unfolding Rt extend_Rt_3x4 by simp
  show "has_shape 4 4 (Rt @ [[0,0,0,1]])"
    unfolding Rt by (simp add: has_shape_def)
qed

text \<open>
  Claim C1 says that the round trip reproduces the corner pixels, exactly in real
  arithmetic and within \<open>1e-4\<close> in floating point, for every invertible \<open>K\<close> and
  \<open>Rt\<close>.  The floating-point half fails.  Take the intrinsics with unit focal length and
  principal point \<open>(2^60, 0)\<close>, the identity pose, a 3x3 image and depth 1; both
  determinants are 1.  In binary64 the inverses are computed without error, the inverse
  of \<open>K\<close> having \<open>- 2^60\<close> in its corner.  The pixel \<open>(2, 0)\<close> unprojects to
  \<open>x = 2 - 2^60\<close>, which is rounded to \<open>- 2^60\<close>, the doubles being 256 apart there; so
  the corners of the right-hand column are the same points as those of the left-hand
  column.  Every corner has camera-space depth 1, and \<^verbatim>\<open>project_impl\<close> sends all four
  to \<open>x = - 2^60 + 2^60 = 0\<close>: the two corners with pixel coordinate \<open>x = 2\<close> come back
  with \<open>x = 0\<close>.
\<close>

theorem round_trip_float_counterexample:
  "has_shape 3 3 [[1, 0, 2 ^ 60], [0, 1, 0], [0, 0, 1]] \<and>
   has_shape 3 4 [[1, 0, 0, 0], [0, 1, 0, 0], [0, 0, 1, 0]] \<and>
   det [[1, 0, 2 ^ 60], [0, 1, 0], [0, 0, 1]] \<noteq> 0 \<and>
   det ([[1, 0, 0, 0], [0, 1, 0, 0], [0, 0, 1, 0]] @ [[0, 0, 0, 1]]) \<noteq> 0 \<and>
   unproject_corners_fp binary64 [[1, 0, 2 ^ 60], [0, 1, 0], [0, 0, 1]] 3 3 1
       [[1, 0, 0, 0], [0, 1, 0, 0], [0, 0, 1, 0]] =
     Inr [[[Finite (- (2 ^ 60)), Finite 0, Finite 1], [Finite (- (2 ^ 60)), Finite 0, Finite 1]],
          [[Finite (- (2 ^ 60)), Finite 2, Finite 1], [Finite (- (2 ^ 60)), Finite 2, Finite 1]]] \<and>
   project_fp binary64 [[1, 0, 2 ^ 60], [0, 1, 0], [0, 0, 1]]
       [[1, 0, 0, 0], [0, 1, 0, 0], [0, 0, 1, 0]]
       [[[Finite (- (2 ^ 60)), Finite 0, Finite 1], [Finite (- (2 ^ 60)), Finite 0, Finite 1]],
        [[Finite (- (2 ^ 60)), Finite 2, Finite 1], [Finite (- (2 ^ 60)), Finite 2, Finite 1]]] =
     Inr [[[Finite 0, Finite 0], [Finite 0, Finite 0]],
          [[Finite 0, Finite 2], [Finite 0, Finite 2]]]"
proof -
  let ?K = "[[1, 0, 2 ^ 60], [0, 1, 0], [0, 0, 1 :: real]]"
  let ?Rt = "[[1, 0, 0, 0], [0, 1, 0, 0], [0, 0, 1, 0 :: real]]"
  let ?P = "[[[Finite (- (2 ^ 60)), Finite 0, Finite 1], [Finite (- (2 ^ 60)), Finite 0, Finite 1]],
          [[Finite (- (2 ^ 60)), Finite 2, Finite 1], [Finite (- (2 ^ 60)), Finite 2, Finite 1]]]"
  have sh: "has_shape 3 3 ?K" "has_shape 3 4 ?Rt"
    by (simp_all add: has_shape_def)
  have d: "det ?K \<noteq> 0" "det (?Rt @ [[0, 0, 0, 1]]) \<noteq> 0"
    by (simp_all add: det.simps del_at_def minor_mat_def upt_rec)
  have E: "extend_Rt ?Rt = Inr [[1, 0, 0, 0], [0, 1, 0, 0], [0, 0, 1, 0], [0, 0, 0, 1]]"
    by code_simp
  have un: "unproject_corners_fp binary64 ?K 3 3 1 ?Rt = Inr ?P"
    using r64_1 r64_2 r64_a r64_ma r64_2ma inv_K_far
    by (simp add: unproject_corners_fp_def E inv_id4 unproject_corner_fp_def
        corner_pixels_def np_dot_fp_def fdot_def rnd_zero Let_def)
  have pr: "project_fp binary64 ?K ?Rt ?P =
     Inr [[[Finite 0, Finite 0], [Finite 0, Finite 0]],
          [[Finite 0, Finite 2], [Finite 0, Finite 2]]]"
    using r64_1 r64_2 r64_a r64_ma r64_2ma
    by (simp add: project_fp_def project_point_fp_def np_dot_fp_def fdot_def rnd_zero)
  from sh d un pr show ?thesis by simp
qed

text \<open>
  Nor does the code return for every invertible \<open>K\<close>.  With \<open>t\<close> the double nearest to
  \<open>1/3\<close>, the matrix with the rows \<open>[3, 1, 0]\<close>, \<open>[1, t, 0]\<close>, \<open>[0, 0, 1]\<close> has the
  determinant \<open>3 t - 1\<close>, which is not zero; but the multiplier of the second row is
  \<open>t\<close>, the eliminated entry is \<open>t - t * 1 = 0\<close>, and the inversion stops at a zero
  pivot with LinAlgError.
\<close>

lemma linalg_inv_fp_cancellation:
  "det [[3, 1, 0], [1, 6004799503160661 / 18014398509481984, 0], [0, 0, 1]] \<noteq> 0 \<and>
   linalg_inv_fp binary64
     [[3, 1, 0], [1, 6004799503160661 / 18014398509481984, 0], [0, 0, 1]] = Inl LinAlgError"
proof -
  have "det [[3, 1, 0], [1, 6004799503160661 / 18014398509481984, 0], [0, 0, 1]] \<noteq> 0"
    by (simp add: det.simps del_at_def minor_mat_def upt_rec)
  moreover have "linalg_inv_fp binary64
     [[3, 1, 0], [1, 6004799503160661 / 18014398509481984, 0], [0, 0, 1]] = Inl LinAlgError"
    using r64_1 r64_3 r64_third r64_f r64_mf
    by (simp add: lu_eval)
  ultimately show ?thesis by simp
qed

text \<open>
  Claim C1, amended.  In exact real arithmetic: for a 3x3 intrinsics matrix \<open>K\<close> and a
  3x4 extrinsics matrix \<open>Rt\<close> that are invertible (\<open>K\<close> and \<open>Rt\<close> extended by the row
  \<open>[0, 0, 0, 1]\<close> have non-zero determinants), \<^verbatim>\<open>unproject_corners_impl\<close> returns a
  corner field for every width, height and depth; for every depth other than zero
  \<^verbatim>\<open>project_impl\<close> maps the corner at grid position \<open>[i][j]\<close> back to the pixel
  \<open>x = j * (width - 1)\<close>, \<open>y = i * (height - 1)\<close>, exactly; and the depth is other than
  zero whenever the camera-space depth of every returned corner is.
\<close>

theorem project_unproject_corners:
  assumes K: "has_shape 3 3 K" and Rt: "has_shape 3 4 Rt"
    and detK: "det K \<noteq> 0" and detE: "det (Rt @ [[0, 0, 0, 1]]) \<noteq> 0"
  shows "\<exists>corners. unproject_corners_impl K width height depth Rt = Inr corners \<and>
           (depth \<noteq> 0 \<longrightarrow>
            project_impl K Rt corners =
              Inr (map (\<lambda>i. map (\<lambda>j. [real j * real_of_int (width - 1),
                                        real i * real_of_int (height - 1)]) [0..<2]) [0..<2])) \<and>
           (list_all (list_all (z_nonzero Rt)) corners \<longrightarrow> depth \<noteq> 0)"
proof -
  let ?E = "Rt @ [[0, 0, 0, 1]]"
  note E = extend_Rt_append[OF Rt]
  from linalg_inv_total[OF E(2) detE] obtain Ri where Ri: "linalg_inv ?E = Inr Ri" ..
  from linalg_inv_total[OF K detK] obtain Ki where Ki: "linalg_inv K = Inr Ki" ..
  note rt = corner_roundtrip[OF K Rt E(1) Ri Ki, of depth]
  let ?w = "real_of_int (width - 1)" and ?h = "real_of_int (height - 1)"
  from rt[of 0 0] obtain A a0 a1 a2 where
    A: "unproject_corner (scale_mat depth Ki) Ri (0, 0) = Inr A"
      "ext_point Rt A = Inr [a0 * depth, a1 * depth, a2 * depth]"
      "np_dot K [a0 * depth, a1 * depth, a2 * depth] = Inr [depth * 0, depth * 0, depth]"
    by blast
  from rt[of ?w 0] obtain B b0 b1 b2 where
    B: "unproject_corner (scale_mat depth Ki) Ri (?w, 0) = Inr B"
      "ext_point Rt B = Inr [b0 * depth, b1 * depth, b2 * depth]"
      "np_dot K [b0 * depth, b1 * depth, b2 * depth] = Inr [depth * ?w, depth * 0, depth]"
    by blast
  from rt[of 0 ?h] obtain C c0 c1 c2 where
    C: "unproject_corner (scale_mat depth Ki) Ri (0, ?h) = Inr C"
      "ext_point Rt C = Inr [c0 * depth, c1 * depth, c2 * depth]"
      "np_dot K [c0 * depth, c1 * depth, c2 * depth] = Inr [depth * 0, depth * ?h, depth]"
    by blast
  from rt[of ?w ?h] obtain D d0 d1 d2 where
    D: "unproject_corner (scale_mat depth Ki) Ri (?w, ?h) = Inr D"
      "ext_point Rt D = Inr [d0 * depth, d1 * depth, d2 * depth]"
      "np_dot K [d0 * depth, d1 * depth, d2 * depth] = Inr [depth * ?w, depth * ?h, depth]"
    by blast
  have un: "unproject_corners_impl K width height depth Rt = Inr [[A, B], [C, D]]"
    using A(1) B(1) C(1) D(1)
    by (simp add: unproject_corners_impl_def E(1) Ri Ki corner_pixels_def Let_def)
  have pr: "project_impl K Rt [[A, B], [C, D]] = Inr [[[0, 0], [?w, 0]], [[0, ?h], [?w, ?h]]]"
    if d: "depth \<noteq> 0"
    unfolding project_impl_def
    by (simp add: corner_project[OF A(2,3) d] corner_project[OF B(2,3) d]
                  corner_project[OF C(2,3) d] corner_project[OF D(2,3) d])
  have z: "depth \<noteq> 0" if "list_all (list_all (z_nonzero Rt)) [[A, B], [C, D]]"
  proof -
    from that have "z_nonzero Rt A" by simp
    then show ?thesis by (rule corner_z_nonzero[OF A(2)])
  qed
  have "map (\<lambda>i. map (\<lambda>j. [real j * ?w, real i * ?h]) [0..<2]) [0..<2]
          = [[[0, 0], [?w, 0]], [[0, ?h], [?w, ?h]]]"
    by (simp add: upt_rec)
  with pr z show ?thesis unfolding un by simp
qed

theorem project_unproject_corners_witness:
  "unproject_corners_impl [[2, 0, 1], [0, 2, 1], [0, 0, 1]] 3 4 2
     [[1, 0, 0, 1], [0, 1, 0, 2], [0, 0, 1, 3]]
   = Inr [[[- 2, - 3, - 1], [0, - 3, - 1]], [[- 2, 0, - 1], [0, 0, - 1]]] \<and>
   project_impl [[2, 0, 1], [0, 2, 1], [0, 0, 1]] [[1, 0, 0, 1], [0, 1, 0, 2], [0, 0, 1, 3]]
     [[[- 2, - 3, - 1], [0, - 3, - 1]], [[- 2, 0, - 1], [0, 0, - 1]]]
   = Inr [[[0, 0], [2, 0]], [[0, 3], [2, 3]]]"
proof -
  let ?K = "[[2, 0, 1], [0, 2, 1], [0, 0, 1 :: real]]"
  let ?Rt = "[[1, 0, 0, 1], [0, 1, 0, 2], [0, 0, 1, 3 :: real]]"
  have K: "has_shape 3 3 ?K" and Rt: "has_shape 3 4 ?Rt"
    by (simp_all add: has_shape_def)
  have dK: "det ?K \<noteq> 0" unfolding det3 by simp
  have dE: "det (?Rt @ [[0, 0, 0, 1]]) \<noteq> 0" unfolding append.simps det4_affine det3 by simp
  have un: "unproject_corners_impl ?K 3 4 2 ?Rt
              = Inr [[[- 2, - 3, - 1], [0, - 3, - 1]], [[- 2, 0, - 1], [0, 0, - 1]]]"
    by code_simp
  from project_unproject_corners[OF K Rt dK dE, of 3 4 2] un
  show ?thesis by (simp add: upt_rec)
qed




section \<open>Properties of the correlation kernel\<close>


lemma int_sqrt_one: "int_sqrt (Suc 0) = Suc 0"
  by (simp add: int_sqrt_def)

lemma compute_ncc_impl_3d:
  assumes "shape image1 = h # w # c # rest" and "0 < c"
  shows "compute_ncc_impl image1 image2 =
           (if h * w * c \<noteq> length (data image1) then Inl ValueError
            else if h * w * c \<noteq> length (data image2) then Inl ValueError
            else Inr \<lparr>shape = [h, w],
                      data = map (\<lambda>p. ncc_score (block c (data image1) p) (block c (data image2) p))
                               [0..<h * w]\<rparr>)"
  using assms by (simp add: compute_ncc_impl_def int_sqrt_one reshape_def Let_def)

lemma numerator_commute: "numerator v1 v2 = numerator v2 v1"
proof -
  have "map2 (*) v1 v2 = map2 (*) v2 v1"
  proof (induction v1 arbitrary: v2)
    case Nil
    then show ?case by simp
  next
    case (Cons x xs)
    then show ?case by (cases v2) (simp_all add: mult.commute)
  qed
  then show ?thesis by (simp add: numerator_def)
qed

lemma denominator_commute: "denominator v1 v2 = denominator v2 v1"
  by (simp add: denominator_def mult.commute)

lemma ncc_score_commute: "ncc_score v1 v2 = ncc_score v2 v1"
  by (simp add: ncc_score_def numerator_commute[of v1] denominator_commute[of v1])

lemma sum_squares_nonneg: "0 \<le> sum_list (map (\<lambda>x. x ^ 2) (v :: real list))"
  by (rule sum_list_nonneg) auto

lemma sum_squares_zero: "sum_list (map (\<lambda>x. x ^ 2) (v :: real list)) = 0 \<longleftrightarrow> v = replicate (length v) 0"
  by (induction v) (auto simp: add_nonneg_eq_0_iff sum_squares_nonneg)

lemma numerator_zero_left: "numerator (replicate n 0) v = 0"
proof (induction n arbitrary: v)
  case 0
  then show ?case by (simp add: numerator_def)
next
  case (Suc n)
  then show ?case by (cases v) (simp_all add: numerator_def)
qed

lemma numerator_zero_right: "numerator v (replicate n 0) = 0"
  by (simp add: numerator_commute[of v] numerator_zero_left)

lemma denominator_zero:
  "denominator v1 v2 = 0 \<longleftrightarrow> v1 = replicate (length v1) 0 \<or> v2 = replicate (length v2) 0"
  by (simp add: denominator_def sum_squares_zero)

lemma ncc_score_cases:
  "ncc_score v1 v2 = (if denominator v1 v2 = 0 then 0 else numerator v1 v2 / denominator v1 v2)"
proof (cases "denominator v1 v2 = 0")
  case True
  then have "numerator v1 v2 = 0"
    unfolding denominator_zero using numerator_zero_left numerator_zero_right by metis
  with True show ?thesis by (simp add: ncc_score_def fix_zero_def)
next
  case False
  then show ?thesis by (simp add: ncc_score_def fix_zero_def)
qed

lemma fix_zero_nonzero: "fix_zero x \<noteq> 0"
  by (simp add: fix_zero_def)

lemma numerator_self: "numerator v v = sum_list (map (\<lambda>x. x ^ 2) v)"
  by (induction v) (simp_all add: numerator_def power2_eq_square)

lemma denominator_self: "denominator v v = sum_list (map (\<lambda>x. x ^ 2) v)"
  using sum_squares_nonneg[of v] by (simp add: denominator_def)

lemma ncc_score_self: "ncc_score v v = (if v = replicate (length v) 0 then 0 else 1)"
  using sum_squares_zero[of v]
  by (simp add: ncc_score_cases numerator_self denominator_self)

lemma length_block:
  assumes "length xs = n * m" and "p < n"
  shows "length (block m xs p) = m"
proof -
  from assms(2) have "Suc p \<le> n" by simp
  then have "Suc p * m \<le> n * m" by (rule mult_le_mono1)
  then have "p * m + m \<le> length xs" using assms(1) by simp
  then show ?thesis by (simp add: block_def)
qed

lemma pixel_index: "r < h \<Longrightarrow> s < w \<Longrightarrow> r * w + s < h * (w::nat)"
proof -
  assume a: "r < h" "s < w"
  then have "r * w + s < r * w + w" by simp
  also have "\<dots> = Suc r * w" by simp
  also have "\<dots> \<le> h * w" using a(1) by (intro mult_le_mono1) simp
  finally show ?thesis .
qed


lemma score_at_result:
  assumes "r < h" and "s < w"
  shows "score_at \<lparr>shape = [h, w], data = map f [0..<h * w]\<rparr> r s = f (r * w + s)"
  using pixel_index[OF assms] by (simp add: score_at_def)

text \<open>
  Claim C2 says that feature fields whose heights, widths or vector lengths differ always
  make \<^verbatim>\<open>compute_ncc_impl\<close> fail.  The function never compares shapes: it reshapes both
  arguments to the extents of the first one, and a reshape looks at the number of elements
  only.  A 1x4 field of 1-vectors and a 2x1 field of 2-vectors differ in height, width and
  vector length, and a score field comes back.
\<close>

theorem correlate_shape_mismatch_counterexample:
  "shape \<lparr>shape = [1, 4, 1], data = [1, 1, 1, 1]\<rparr> \<noteq> shape \<lparr>shape = [2, 1, 2], data = [1, 1, 1, 1]\<rparr>
   \<and> wf_array \<lparr>shape = [1, 4, 1], data = [1, 1, 1, 1]\<rparr>
   \<and> wf_array \<lparr>shape = [2, 1, 2], data = [1, 1, 1, 1]\<rparr>
   \<and> compute_ncc_impl \<lparr>shape = [1, 4, 1], data = [1, 1, 1, 1]\<rparr>
                       \<lparr>shape = [2, 1, 2], data = [1, 1, 1, 1]\<rparr>
       = Inr \<lparr>shape = [1, 4], data = [1, 1, 1, 1]\<rparr>"
  by (simp add: wf_array_def compute_ncc_impl_def int_sqrt_def reshape_def upt_rec
        ncc_score_def block_def numerator_def denominator_def fix_zero_def)

text \<open>
  Claim C2, amended.  For a three-dimensional first field with non-empty vectors,
  \<^verbatim>\<open>compute_ncc_impl\<close> fails with ValueError exactly when the second field has a different
  number of elements; otherwise it returns a score field with the height and width of the
  first field, the second field's elements being read in the first field's layout.
\<close>

theorem correlate_fails_iff_sizes_differ:
  assumes "shape image1 = [h, w, c]" and "0 < c"
    and "wf_array image1" and "wf_array image2"
  shows "compute_ncc_impl image1 image2 =
           (if prod_list (shape image2) \<noteq> prod_list (shape image1) then Inl ValueError
            else Inr \<lparr>shape = [h, w],
                      data = map (\<lambda>p. ncc_score (block c (data image1) p) (block c (data image2) p))
                               [0..<h * w]\<rparr>)"
  using assms unfolding compute_ncc_impl_3d[OF assms(1,2)]
  by (auto simp: wf_array_def)

theorem correlate_fails_iff_sizes_differ_witness:
  "compute_ncc_impl \<lparr>shape = [1, 2, 2], data = [1, 0, 0, 1]\<rparr> \<lparr>shape = [1, 3, 2], data = [1, 0, 0, 1, 1, 1]\<rparr>
     = Inl ValueError"
proof -
  have "wf_array \<lparr>shape = [1, 2, 2], data = [1, 0, 0, 1]\<rparr>"
    "wf_array \<lparr>shape = [1, 3, 2], data = [1, 0, 0, 1, 1, 1]\<rparr>"
    by (simp_all add: wf_array_def)
  from correlate_fails_iff_sizes_differ[OF _ _ this, of 1 2 2] show ?thesis by simp
qed

text \<open>
  Claim C6 says that the score is 0, never NaN and never infinite, where the
  denominator \<open>sqrt (sum (v1^2) * sum (v2^2))\<close> is zero.  Take two fields of one pixel
  with the vectors \<open>[2^700]\<close> and \<open>[0]\<close>; the denominator is zero.  In binary64 the
  square of \<open>2^700\<close> overflows to infinity, infinity times zero is NaN, its square root is
  NaN, the test \<^verbatim>\<open>denominator == 0\<close> is False, and the score \<open>0 / NaN\<close> is NaN.
\<close>

theorem correlate_nan_counterexample:
  "denominator (vec_at \<lparr>shape = [1, 1, 1], data = [2 ^ 700]\<rparr> 0 0)
               (vec_at \<lparr>shape = [1, 1, 1], data = [0]\<rparr> 0 0) = 0 \<and>
   compute_ncc_fp binary64 \<lparr>shape = [1, 1, 1], data = [2 ^ 700]\<rparr> \<lparr>shape = [1, 1, 1], data = [0]\<rparr>
     = Inr \<lparr>fshape = [1, 1], fdata = [NaN]\<rparr>"
proof -
  have sq: "(2::real) ^ 700 * 2 ^ 700 = 2 ^ 1400" by (simp flip: power_add)
  have "fncc_score binary64 [rnd binary64 (2 ^ 700)] [rnd binary64 0] = NaN"
    using r_2p700 r_2p1400 sq
    by (simp add: fncc_score_def fnumerator_def fdenominator_def fsum_squares_def np_sum_def
        pairwise_sum_short rnd_zero ffix_zero_def)
  then show ?thesis
    by (simp add: compute_ncc_fp_def int_sqrt_def reshape_def block_def vec_at_def
        denominator_def)
qed

text \<open>
  Claim C6, amended.  In exact real arithmetic: for two feature fields of the same shape
  \<open>[h, w, c]\<close> and a pixel \<open>(r, s)\<close>, the call returns whenever the vectors are not
  empty, and every score field it returns has at that pixel the score 0 if
  \<open>sqrt (sum (v1^2) * sum (v2^2))\<close> is zero and numerator over denominator otherwise;
  the divisor the code uses, the denominator with zeros replaced by 1, is never zero.
\<close>

theorem correlate_zero_denominator:
  assumes "shape image1 = [h, w, c]" and "shape image2 = [h, w, c]"
    and "wf_array image1" and "wf_array image2"
    and "r < h" and "s < w"
  shows "(0 < c \<longrightarrow> (\<exists>ncc. compute_ncc_impl image1 image2 = Inr ncc)) \<and>
         (\<forall>ncc. compute_ncc_impl image1 image2 = Inr ncc \<longrightarrow>
            shape ncc = [h, w] \<and>
            score_at ncc r s =
              (if denominator (vec_at image1 r s) (vec_at image2 r s) = 0 then 0
               else numerator (vec_at image1 r s) (vec_at image2 r s)
                      / denominator (vec_at image1 r s) (vec_at image2 r s)) \<and>
            score_at ncc r s = numerator (vec_at image1 r s) (vec_at image2 r s)
                      / fix_zero (denominator (vec_at image1 r s) (vec_at image2 r s)) \<and>
            fix_zero (denominator (vec_at image1 r s) (vec_at image2 r s)) \<noteq> 0)"
proof (cases "c = 0")
  case True
  then show ?thesis using assms(1) by (simp add: compute_ncc_impl_def)
next
  case False
  then have c: "0 < c" by simp
  have len: "h * w * c = length (data image1)" "h * w * c = length (data image2)"
    using assms(1-4) by (simp_all add: wf_array_def)
  have res: "compute_ncc_impl image1 image2 =
      Inr \<lparr>shape = [h, w],
           data = map (\<lambda>p. ncc_score (block c (data image1) p) (block c (data image2) p))
                    [0..<h * w]\<rparr>"
    unfolding compute_ncc_impl_3d[OF assms(1) c] using len by simp
  have v: "vec_at image1 r s = block c (data image1) (r * w + s)"
    "vec_at image2 r s = block c (data image2) (r * w + s)"
    using assms(1,2) by (simp_all add: vec_at_def)
  show ?thesis
    unfolding res v
    by (simp add: score_at_result[OF assms(5,6)] fix_zero_nonzero ncc_score_cases[symmetric])
       (simp add: ncc_score_def)
qed


theorem correlate_zero_denominator_witness:
  "compute_ncc_impl \<lparr>shape = [1, 2, 2], data = [0, 0, 1, 0]\<rparr>
     \<lparr>shape = [1, 2, 2], data = [1, 0, 1, 0]\<rparr> = Inr \<lparr>shape = [1, 2], data = [0, 1]\<rparr> \<and>
   score_at \<lparr>shape = [1, 2], data = [0, 1]\<rparr> 0 0 = 0 \<and>
   score_at \<lparr>shape = [1, 2], data = [0, 1]\<rparr> 0 1 = 1"
proof -
  let ?a = "\<lparr>shape = [1, 2, 2], data = [0, 0, 1, 0]\<rparr>"
  let ?b = "\<lparr>shape = [1, 2, 2], data = [1, 0, 1, 0]\<rparr>"
  have wf: "wf_array ?a" "wf_array ?b" by (simp_all add: wf_array_def)
  have res: "compute_ncc_impl ?a ?b = Inr \<lparr>shape = [1, 2], data = [0, 1]\<rparr>"
    by (simp add: compute_ncc_impl_def int_sqrt_def reshape_def upt_rec
        ncc_score_def block_def numerator_def denominator_def fix_zero_def)
  have v: "vec_at ?a 0 0 = [0, 0]" "vec_at ?b 0 0 = [1, 0]"
    "vec_at ?a 0 1 = [1, 0]" "vec_at ?b 0 1 = [1, 0]"
    by (simp_all add: vec_at_def block_def)
  have d: "denominator [0, 0] [1, 0] = 0" "denominator [1, 0] [1, 0] = 1"
    "numerator [1, 0] [1, 0] = 1"
    by (simp_all add: denominator_def numerator_def)
  from correlate_zero_denominator[of ?a 1 2 2 ?b 0 0, OF _ _ wf] res
  have 0: "score_at \<lparr>shape = [1, 2], data = [0, 1]\<rparr> 0 0 = 0"
    unfolding v d by simp
  from correlate_zero_denominator[of ?a 1 2 2 ?b 0 1, OF _ _ wf] res
  have 1: "score_at \<lparr>shape = [1, 2], data = [0, 1]\<rparr> 0 1 = 1"
    unfolding v d by simp
  from res 0 1 show ?thesis by simp
qed

text \<open>
  Claim C7 says that a field correlated with itself scores 1 at every non-zero vector,
  within floating-point tolerance.  Take the field of one pixel with the vector
  \<open>[2^-540, 0]\<close>.  In binary64 the square \<open>2^-1080\<close> is below half the smallest
  subnormal number \<open>2^-1074\<close> and underflows to zero: numerator and sums of squares are
  zero, the zero denominator is replaced by 1, and the score is 0, all values being
  finite.
\<close>

theorem self_correlation_underflow_counterexample:
  "vec_at \<lparr>shape = [1, 1, 2], data = [1 / 2 ^ 540, 0]\<rparr> 0 0 \<noteq> replicate 2 0 \<and>
   compute_ncc_fp binary64 \<lparr>shape = [1, 1, 2], data = [1 / 2 ^ 540, 0]\<rparr>
                           \<lparr>shape = [1, 1, 2], data = [1 / 2 ^ 540, 0]\<rparr>
     = Inr \<lparr>fshape = [1, 1], fdata = [Finite 0]\<rparr>"
proof -
  have sq: "1 / (2::real) ^ 540 * (1 / 2 ^ 540) = 1 / 2 ^ 1080"
    by (simp flip: power_add)
  have "fncc_score binary64 [rnd binary64 (1 / 2 ^ 540), rnd binary64 0]
          [rnd binary64 (1 / 2 ^ 540), rnd binary64 0] = Finite 0"
    using r64_t r64_tt sq
    by (simp add: fncc_score_def fnumerator_def fdenominator_def fsum_squares_def np_sum_def
        pairwise_sum_short rnd_zero ffix_zero_def)
  then show ?thesis
    by (simp add: compute_ncc_fp_def int_sqrt_def reshape_def block_def vec_at_def
        numeral_2_eq_2)
qed

text \<open>
  Claim C7, amended.  In exact real arithmetic: correlating a feature field with itself
  gives the score 1 at every pixel whose vector is not the zero vector and 0 at every
  pixel whose vector is the zero vector; the call returns whenever the vectors are not
  empty.
\<close>

theorem self_correlation:
  assumes "shape f = [h, w, c]" and "wf_array f" and "r < h" and "s < w"
  shows "(0 < c \<longrightarrow> (\<exists>ncc. compute_ncc_impl f f = Inr ncc)) \<and>
         (\<forall>ncc. compute_ncc_impl f f = Inr ncc \<longrightarrow>
            shape ncc = [h, w] \<and>
            score_at ncc r s = (if vec_at f r s = replicate c 0 then 0 else 1))"
proof (cases "c = 0")
  case True
  then show ?thesis using assms(1) by (simp add: compute_ncc_impl_def)
next
  case False
  then have c: "0 < c" by simp
  have len: "h * w * c = length (data f)"
    using assms(1,2) by (simp add: wf_array_def)
  have res: "compute_ncc_impl f f =
      Inr \<lparr>shape = [h, w],
           data = map (\<lambda>p. ncc_score (block c (data f) p) (block c (data f) p)) [0..<h * w]\<rparr>"
    unfolding compute_ncc_impl_3d[OF assms(1) c] using len by simp
  have v: "vec_at f r s = block c (data f) (r * w + s)"
    using assms(1) by (simp add: vec_at_def)
  have l: "length (block c (data f) (r * w + s)) = c"
    using len pixel_index[OF assms(3,4)] by (intro length_block[where n = "h * w"]) simp_all
  show ?thesis
    unfolding res v
    by (simp add: score_at_result[OF assms(3,4)] ncc_score_self l)
qed

theorem self_correlation_witness:
  "score_at \<lparr>shape = [1, 2], data = [0, 1]\<rparr> 0 0 = 0 \<and>
   score_at \<lparr>shape = [1, 2], data = [0, 1]\<rparr> 0 1 = 1 \<and>
   compute_ncc_impl \<lparr>shape = [1, 2, 2], data = [0, 0, 3, 4]\<rparr>
     \<lparr>shape = [1, 2, 2], data = [0, 0, 3, 4]\<rparr> = Inr \<lparr>shape = [1, 2], data = [0, 1]\<rparr>"
proof -
  let ?f = "\<lparr>shape = [1, 2, 2], data = [0, 0, 3, 4]\<rparr>"
  have wf: "wf_array ?f" by (simp add: wf_array_def)
  have v: "vec_at ?f 0 0 = [0, 0]" "vec_at ?f 0 1 = [3, 4]"
    by (simp_all add: vec_at_def block_def)
  from self_correlation[of ?f 1 2 2 0 0, OF _ wf] self_correlation[of ?f 1 2 2 0 1, OF _ wf]
  obtain ncc where ncc: "compute_ncc_impl ?f ?f = Inr ncc" "shape ncc = [1, 2]"
    "score_at ncc 0 0 = 0" "score_at ncc 0 1 = 1"
    unfolding v by (auto simp: numeral_2_eq_2)
  have "length (data ncc) = 2"
    using ncc(1) by (auto simp: compute_ncc_impl_def int_sqrt_def reshape_def)
  then obtain x y where xy: "data ncc = [x, y]"
    by (auto simp: length_Suc_conv numeral_2_eq_2)
  from ncc(2-4) xy have "ncc = \<lparr>shape = [1, 2], data = [0, 1]\<rparr>"
    by (cases ncc) (simp add: score_at_def)
  with ncc show ?thesis by simp
qed

text \<open>
  Claim C8.  For feature fields of the same shape, \<^verbatim>\<open>compute_ncc_impl\<close> gives the same
  result with its arguments exchanged; numerator and denominator are symmetric in the two
  vectors.
\<close>

theorem correlate_symmetric:
  assumes "shape f1 = shape f2"
  shows "compute_ncc_impl f1 f2 = compute_ncc_impl f2 f1 \<and>
         (\<forall>v1 v2. numerator v1 v2 = numerator v2 v1 \<and> denominator v1 v2 = denominator v2 v1)"
proof -
  have "compute_ncc_impl f1 f2 = compute_ncc_impl f2 f1"
  proof (cases "\<exists>h w c rest. shape f1 = h # w # c # rest \<and> 0 < c")
    case True
    then obtain h w c rest where sh: "shape f1 = h # w # c # rest" and c: "0 < c"
      by blast
    from sh assms have sh2: "shape f2 = h # w # c # rest" by simp
    have "\<And>p. ncc_score (block c (data f1) p) (block c (data f2) p)
             = ncc_score (block c (data f2) p) (block c (data f1) p)"
      by (rule ncc_score_commute)
    then show ?thesis
      unfolding compute_ncc_impl_3d[OF sh c] compute_ncc_impl_3d[OF sh2 c] by simp
  next
    case False
    with assms show ?thesis
      by (auto simp: compute_ncc_impl_def split: list.splits)
  qed
  then show ?thesis
    using numerator_commute denominator_commute by blast
qed

theorem correlate_symmetric_witness:
  "compute_ncc_impl \<lparr>shape = [1, 1, 2], data = [1, 2]\<rparr> \<lparr>shape = [1, 1, 2], data = [3, 5]\<rparr>
   = compute_ncc_impl \<lparr>shape = [1, 1, 2], data = [3, 5]\<rparr> \<lparr>shape = [1, 1, 2], data = [1, 2]\<rparr>"
  using correlate_symmetric[of "\<lparr>shape = [1, 1, 2], data = [1, 2]\<rparr>"
                               "\<lparr>shape = [1, 1, 2], data = [3, 5]\<rparr>"]
  by simp


section \<open>Properties of the patch normalizer\<close>

subsection \<open>Slices and the loop body\<close>


lemma clip_index_nonneg: "clip_index len (int x) = min x len"
  by (simp add: clip_index_def min_def)

lemma dest_len: "slice_len h (int k) (int h - int k) = h - 2 * k"
  by (auto simp: slice_len_def clip_index_def min_def max_def)

lemma dest_start: "slice_start h (int k) (int h - int k) = min k h"
  by (simp add: slice_start_def clip_index_nonneg)

lemma src_start: "slice_start h (int i) b = min i h"
  by (simp add: slice_start_def clip_index_nonneg)

lemma src_len_wide:
  assumes "2 * k \<le> h" and "i \<le> 2 * k"
  shows "slice_len h (int i) (int h - 2 * int k + int i) = h - 2 * k"
  using assms by (auto simp: slice_len_def clip_index_def min_def max_def)

lemma src_len_narrow:
  assumes "h \<le> k" and "i \<le> 2 * k"
  shows "slice_len h (int i) (int h - 2 * int k + int i) = 0"
  using assms by (auto simp: slice_len_def clip_index_def min_def max_def)

lemma src_len_bad:
  assumes "k < h" and "h < 2 * k"
  shows "slice_len h 0 (int h - 2 * int k + 0) = 2 * (h - k)"
  using assms by (auto simp: slice_len_def clip_index_def min_def max_def)

lemma margin_rows:
  assumes "r < h" and "r < k \<or> h \<le> r + k"
  shows "margin h k r"
  using assms by (auto simp: margin_def clip_index_def min_def max_def)

lemma margin_zero: "r < h \<Longrightarrow> margin h 0 r"
  by (simp add: margin_def clip_index_def)

lemma margin_iff:
  assumes "r < h" 
  shows "margin h k r \<longleftrightarrow> k = 0 \<or> r < k \<or> h \<le> r + k"
  using assms by (auto simp: margin_def clip_index_def min_def max_def)


lemma bcast_same: "p < m \<Longrightarrow> bcast m p = p"
  by (auto simp: bcast_def)

lemma assign_offset_ok:
  assumes "\<not> (k < h \<and> h < 2 * k)" and "\<not> (k < w \<and> w < 2 * k)"
    and "i \<le> 2 * k" and "j \<le> 2 * k"
  shows "\<exists>nrm'. assign_offset img h w c k i j nrm = Inr nrm'"
proof -
  have r: "broadcastable (slice_len h (int i) (int h - 2 * int k + int i))
             (slice_len h (int k) (int h - int k))"
  proof (cases "2 * k \<le> h")
    case True
    then show ?thesis by (simp add: src_len_wide assms(3) dest_len broadcastable_def)
  next
    case False
    with assms(1) have "h \<le> k" by simp
    then show ?thesis by (simp add: src_len_narrow assms(3) dest_len broadcastable_def)
  qed
  have s: "broadcastable (slice_len w (int j) (int w - 2 * int k + int j))
             (slice_len w (int k) (int w - int k))"
  proof (cases "2 * k \<le> w")
    case True
    then show ?thesis by (simp add: src_len_wide assms(4) dest_len broadcastable_def)
  next
    case False
    with assms(2) have "w \<le> k" by simp
    then show ?thesis by (simp add: src_len_narrow assms(4) dest_len broadcastable_def)
  qed
  from r s show ?thesis by (simp add: assign_offset_def Let_def)
qed

lemma assign_offset_error: "assign_offset img h w c k i j nrm = Inl e \<Longrightarrow> e = ValueError"
  by (auto simp: assign_offset_def Let_def split: if_splits)

lemma assign_offset_length:
  assumes "assign_offset img h w c k i j nrm = Inr nrm'"
  shows "length nrm' = h" and "r < h \<Longrightarrow> length (nrm' ! r) = w"
  using assms by (auto simp: assign_offset_def Let_def split: if_splits)

lemma assign_offset_pixel:
  assumes "assign_offset img h w c k i j nrm = Inr nrm'" and "r < h" and "s < w"
  shows "nrm' ! r ! s = nrm ! r ! s \<or>
         (\<exists>v. nrm' ! r ! s =
            map (\<lambda>ch. (nrm ! r ! s ! ch)[i := (nrm ! r ! s ! ch ! i)[j := v ch]]) [0..<c])"
  using assms by (auto simp: assign_offset_def Let_def split: if_splits)

lemma assign_offset_interior:
  assumes "assign_offset img h w c k i j nrm = Inr nrm'"
    and "k \<le> r" and "r + k < h" and "k \<le> s" and "s + k < w"
    and "i \<le> 2 * k" and "j \<le> 2 * k"
  shows "nrm' ! r ! s =
           map (\<lambda>ch. (nrm ! r ! s ! ch)
                  [i := (nrm ! r ! s ! ch ! i)[j := img ! (r - k + i) ! (s - k + j) ! ch]])
             [0..<c]"
proof -
  have h: "2 * k \<le> h" "r < h" and w: "2 * k \<le> w" "s < w"
    using assms by simp_all
  have rows: "slice_start h (int k) (int h - int k) = k"
    "slice_len h (int k) (int h - int k) = h - 2 * k"
    "slice_start h (int i) (int h - 2 * int k + int i) = i"
    "slice_len h (int i) (int h - 2 * int k + int i) = h - 2 * k"
    using h assms(6) by (simp_all add: dest_start dest_len src_start src_len_wide)
  have cols: "slice_start w (int k) (int w - int k) = k"
    "slice_len w (int k) (int w - int k) = w - 2 * k"
    "slice_start w (int j) (int w - 2 * int k + int j) = j"
    "slice_len w (int j) (int w - 2 * int k + int j) = w - 2 * k"
    using w assms(7) by (simp_all add: dest_start dest_len src_start src_len_wide)
  have b: "bcast (h - 2 * k) (r - k) = r - k" "bcast (w - 2 * k) (s - k) = s - k"
    using assms(2-5) by (simp_all add: bcast_same)
  have in_r: "k \<le> r \<and> r < k + (h - 2 * k)" and in_s: "k \<le> s \<and> s < k + (w - 2 * k)"
    using assms(2-5) by simp_all
  from assms(1) have "nrm' = map (\<lambda>r. map (\<lambda>s.
                if k \<le> r \<and> r < k + (h - 2 * k) \<and> k \<le> s \<and> s < k + (w - 2 * k)
                then map (\<lambda>ch. (nrm ! r ! s ! ch)
                       [i := (nrm ! r ! s ! ch ! i)
                          [j := img ! (i + bcast (h - 2 * k) (r - k)) ! (j + bcast (w - 2 * k) (s - k)) ! ch]])
                     [0..<c]
                else nrm ! r ! s) [0..<w]) [0..<h]"
    unfolding assign_offset_def Let_def rows cols by (simp split: if_splits)
  then show ?thesis
    using h(2) w(2) in_r in_s by (simp add: b add.commute)
qed


lemma field_shapedD:
  assumes "field_shaped h w c n nrm"
  shows "length nrm = h" and "r < h \<Longrightarrow> length (nrm ! r) = w"
    and "r < h \<Longrightarrow> s < w \<Longrightarrow> patch_shaped c n (nrm ! r ! s)"
  using assms by (auto simp: field_shaped_def list_all_length)

lemma field_shapedI:
  assumes "length nrm = h" and "\<And>r. r < h \<Longrightarrow> length (nrm ! r) = w"
    and "\<And>r s. r < h \<Longrightarrow> s < w \<Longrightarrow> patch_shaped c n (nrm ! r ! s)"
  shows "field_shaped h w c n nrm"
  using assms by (auto simp: field_shaped_def list_all_length)

lemma patch_shapedD:
  assumes "patch_shaped c n p"
  shows "length p = c" and "ch < c \<Longrightarrow> length (p ! ch) = n"
    and "ch < c \<Longrightarrow> i < n \<Longrightarrow> length (p ! ch ! i) = n"
  using assms by (auto simp: patch_shaped_def list_all_length)

lemma patch_shaped_update:
  assumes "patch_shaped c n p"
  shows "patch_shaped c n (map (\<lambda>ch. (p ! ch)[i := (p ! ch ! i)[j := v ch]]) [0..<c])"
proof -
  have "length ((b[i := (b ! i)[j := x]]) ! a) = n"
    if "length b = n" "\<forall>q<n. length (b ! q) = n" "a < n" for b :: "real list list" and x a
    using that by (cases "a = i") simp_all
  with assms show ?thesis
    by (auto simp: patch_shaped_def list_all_length)
qed

lemma zeros5_shaped: "field_shaped h w c n (zeros5 h w c n)"
  by (auto simp: field_shaped_def patch_shaped_def zeros5_def list_all_length)

lemma assign_offset_shaped:
  assumes "assign_offset img h w c k i j nrm = Inr nrm'" and "field_shaped h w c n nrm"
  shows "field_shaped h w c n nrm'"
proof (rule field_shapedI)
  show "length nrm' = h" by (rule assign_offset_length(1)[OF assms(1)])
  show "length (nrm' ! r) = w" if "r < h" for r
    by (rule assign_offset_length(2)[OF assms(1) that])
  show "patch_shaped c n (nrm' ! r ! s)" if "r < h" "s < w" for r s
    using assign_offset_pixel[OF assms(1) that] field_shapedD(3)[OF assms(2) that]
    by (auto intro: patch_shaped_update)
qed

text \<open>What the loops leave in the patch of a pixel whose window lies inside the image.\<close>

lemma assign_offset_entry:
  assumes a: "assign_offset img h w c k i j nrm = Inr nrm'"
    and sh: "field_shaped h w c n nrm"
    and int: "k \<le> r" "r + k < h" "k \<le> s" "s + k < w"
    and ij: "i < n" "j < n" and n: "n \<le> 2 * k + 1"
    and idx: "ch < c" "i' < n" "j' < n"
  shows "nrm' ! r ! s ! ch ! i' ! j' =
           (if i' = i \<and> j' = j then img ! (r - k + i) ! (s - k + j) ! ch
            else nrm ! r ! s ! ch ! i' ! j')"
proof -
  have i2: "i \<le> 2 * k" "j \<le> 2 * k" using ij n by simp_all
  have rs: "r < h" "s < w" using int by simp_all
  note p = patch_shapedD[OF field_shapedD(3)[OF sh rs]]
  have "nrm' ! r ! s ! ch =
          (nrm ! r ! s ! ch)[i := (nrm ! r ! s ! ch ! i)[j := img ! (r - k + i) ! (s - k + j) ! ch]]"
    unfolding assign_offset_interior[OF a int i2] using idx(1) by simp
  then show ?thesis
    using p(2)[OF idx(1)] p(3)[OF idx(1) ij(1)] ij idx
    by (simp add: nth_list_update)
qed

lemma fold_err_Cons_Inr:
  assumes "fold_err f (x # xs) s = Inr s'"
  obtains s1 where "f x s = Inr s1" and "fold_err f xs s1 = Inr s'"
  using assms by (auto split: sum.splits)

lemma fold_cols:
  assumes "fold_err (\<lambda>j. assign_offset img h w c k i j) js nrm = Inr nrm'"
    and "field_shaped h w c n nrm"
    and "k \<le> r" "r + k < h" "k \<le> s" "s + k < w"
    and "i < n" and "\<forall>j \<in> set js. j < n" and "n \<le> 2 * k + 1"
    and "ch < c" "i' < n" "j' < n"
  shows "field_shaped h w c n nrm' \<and>
         nrm' ! r ! s ! ch ! i' ! j' =
           (if i' = i \<and> j' \<in> set js then img ! (r - k + i') ! (s - k + j') ! ch
            else nrm ! r ! s ! ch ! i' ! j')"
  using assms(1,2,8)
proof (induction js arbitrary: nrm)
  case Nil
  then show ?case by simp
next
  case (Cons j js)
  from Cons.prems(1) obtain nrm1 where
    1: "assign_offset img h w c k i j nrm = Inr nrm1"
    and 2: "fold_err (\<lambda>j. assign_offset img h w c k i j) js nrm1 = Inr nrm'"
    by (rule fold_err_Cons_Inr)
  have sh1: "field_shaped h w c n nrm1"
    by (rule assign_offset_shaped[OF 1 Cons.prems(2)])
  from Cons.prems(3) have j: "j < n" and js: "\<forall>j \<in> set js. j < n" by simp_all
  note e1 = assign_offset_entry[OF 1 Cons.prems(2) assms(3-6) assms(7) j assms(9) assms(10-12)]
  from Cons.IH[OF 2 sh1 js] e1 show ?case by auto
qed

lemma fold_rows:
  assumes "fold_err (\<lambda>i. fold_err (\<lambda>j. assign_offset img h w c k i j) js) is nrm = Inr nrm'"
    and "field_shaped h w c n nrm"
    and "k \<le> r" "r + k < h" "k \<le> s" "s + k < w"
    and "\<forall>i \<in> set is. i < n" and "\<forall>j \<in> set js. j < n" and "n \<le> 2 * k + 1"
    and "ch < c" "i' < n" "j' < n"
  shows "field_shaped h w c n nrm' \<and>
         nrm' ! r ! s ! ch ! i' ! j' =
           (if i' \<in> set is \<and> j' \<in> set js then img ! (r - k + i') ! (s - k + j') ! ch
            else nrm ! r ! s ! ch ! i' ! j')"
  using assms(1,2,7)
proof (induction "is" arbitrary: nrm)
  case Nil
  then show ?case by simp
next
  case (Cons i "is")
  from Cons.prems(1) obtain nrm1 where
    1: "fold_err (\<lambda>j. assign_offset img h w c k i j) js nrm = Inr nrm1"
    and 2: "fold_err (\<lambda>i. fold_err (\<lambda>j. assign_offset img h w c k i j) js) is nrm1 = Inr nrm'"
    by (rule fold_err_Cons_Inr)
  from Cons.prems(3) have i: "i < n" and "is": "\<forall>i \<in> set is. i < n" by simp_all
  note c1 = fold_cols[OF 1 Cons.prems(2) assms(3-6) i assms(8) assms(9) assms(10-12)]
  from Cons.IH[OF 2 conjunct1[OF c1] "is"] c1 show ?case by auto
qed


lemma fold_err_invariant:
  assumes "fold_err f xs s = Inr s'" and "P s"
    and "\<And>x t t'. f x t = Inr t' \<Longrightarrow> P t \<Longrightarrow> P t'"
  shows "P s'"
  using assms(1,2)
proof (induction xs arbitrary: s)
  case Nil
  then show ?case by simp
next
  case (Cons x xs)
  from Cons.prems(1) obtain s1 where "f x s = Inr s1" and "fold_err f xs s1 = Inr s'"
    by (rule fold_err_Cons_Inr)
  with Cons.IH assms(3) Cons.prems(2) show ?case by blast
qed

lemma fold_err_total:
  assumes "\<And>x t. x \<in> set xs \<Longrightarrow> \<exists>t'. f x t = Inr t'"
  shows "\<exists>s'. fold_err f xs s = Inr s'"
  using assms
proof (induction xs arbitrary: s)
  case Nil
  then show ?case by simp
next
  case (Cons x xs)
  from Cons.prems[of x s] obtain s1 where 1: "f x s = Inr s1" by auto
  from Cons.IH[of s1] Cons.prems obtain s' where "fold_err f xs s1 = Inr s'" by auto
  with 1 show ?case by simp
qed

lemma fold_err_error:
  assumes "fold_err f xs s = Inl e" and "\<And>x t e'. f x t = Inl e' \<Longrightarrow> Q e'"
  shows "Q e"
  using assms(1)
proof (induction xs arbitrary: s)
  case Nil
  then show ?case by simp
next
  case (Cons x xs)
  then show ?case using assms(2) by (auto split: sum.splits)
qed

lemma image_shape_wf:
  assumes "wf_image h w c img" and "0 < h" and "0 < w"
  shows "image_shape img = (h, w, c)"
proof -
  from assms obtain row rows where img: "img = row # rows"
    by (cases img) (auto simp: wf_image_def)
  with assms have row: "length row = w" "list_all (\<lambda>px. length px = c) row"
    by (simp_all add: wf_image_def)
  with assms(3) obtain px pxs where r: "row = px # pxs" by (cases row) auto
  with row have "length px = c" by simp
  with img r row assms(1) show ?thesis
    by (simp add: image_shape_def wf_image_def)
qed

lemma image_shape_empty:
  assumes "wf_image h w c img" and "h * w * c = 0"
  shows "(case image_shape img of (h', w', c') \<Rightarrow> h' * w' * c') = 0"
proof (cases "0 < h \<and> 0 < w")
  case True
  with image_shape_wf[OF assms(1)] assms(2) show ?thesis by simp
next
  case False
  then consider "h = 0" | "0 < h" "w = 0" by auto
  then show ?thesis
  proof cases
    case 1
    with assms(1) show ?thesis by (simp add: wf_image_def image_shape_def)
  next
    case 2
    then obtain row rows where img: "img = row # rows"
      using assms(1) by (cases img) (auto simp: wf_image_def)
    with assms(1) 2 show ?thesis by (simp add: wf_image_def image_shape_def)
  qed
qed

lemma wf_imageD:
  assumes "wf_image h w c img"
  shows "length img = h" and "r < h \<Longrightarrow> length (img ! r) = w"
    and "r < h \<Longrightarrow> s < w \<Longrightarrow> length (img ! r ! s) = c"
  using assms by (auto simp: wf_image_def list_all_length)

text \<open>The loops of \<^verbatim>\<open>preprocess_ncc_impl\<close> on an array of known extents.\<close>

lemma raw_patches_shape:
  assumes "image_shape img = (h, w, c)"
  shows "raw_patches img n =
           fold_err (\<lambda>i. fold_err (\<lambda>j. assign_offset img h w c (n div 2) i j) [0..<n]) [0..<n]
             (zeros5 h w c n)"
  using assms by (simp add: raw_patches_def Let_def)

lemma raw_patches_error: "raw_patches img n = Inl e \<Longrightarrow> e = ValueError"
proof -
  assume a: "raw_patches img n = Inl e"
  obtain h w c where sh: "image_shape img = (h, w, c)" by (cases "image_shape img") auto
  show ?thesis
    using a unfolding raw_patches_shape[OF sh]
    by (rule fold_err_error) (erule fold_err_error, erule assign_offset_error)
qed

lemma raw_patches_shaped:
  assumes "image_shape img = (h, w, c)" and "raw_patches img n = Inr nrm"
  shows "field_shaped h w c n nrm"
  using assms(2) unfolding raw_patches_shape[OF assms(1)]
proof (rule fold_err_invariant)
  show "field_shaped h w c n (zeros5 h w c n)" by (rule zeros5_shaped)
next
  fix i t t'
  assume "fold_err (assign_offset img h w c (n div 2) i) [0..<n] t = Inr t'"
    and "field_shaped h w c n t"
  then show "field_shaped h w c n t'"
    by (rule fold_err_invariant) (rule assign_offset_shaped)
qed

lemma raw_patches_total:
  assumes "image_shape img = (h, w, c)"
    and "\<not> (n div 2 < h \<and> h < 2 * (n div 2))" and "\<not> (n div 2 < w \<and> w < 2 * (n div 2))"
  shows "\<exists>nrm. raw_patches img n = Inr nrm"
  unfolding raw_patches_shape[OF assms(1)]
proof (rule fold_err_total)
  fix i t
  assume "i \<in> set [0..<n]"
  then have i: "i \<le> 2 * (n div 2)" by auto
  show "\<exists>t'. fold_err (assign_offset img h w c (n div 2) i) [0..<n] t = Inr t'"
  proof (rule fold_err_total)
    fix j u
    assume "j \<in> set [0..<n]"
    then have j: "j \<le> 2 * (n div 2)" by auto
    show "\<exists>t'. assign_offset img h w c (n div 2) i j u = Inr t'"
      by (rule assign_offset_ok[OF assms(2,3) i j])
  qed
qed

lemma raw_patches_entry:
  assumes sh: "image_shape img = (h, w, c)" and raw: "raw_patches img n = Inr nrm"
    and int: "n div 2 \<le> r" "r + n div 2 < h" "n div 2 \<le> s" "s + n div 2 < w"
    and idx: "ch < c" "i < n" "j < n"
  shows "nrm ! r ! s ! ch ! i ! j = img ! (r - n div 2 + i) ! (s - n div 2 + j) ! ch"
proof -
  have n: "n \<le> 2 * (n div 2) + 1" by simp
  have "\<forall>i \<in> set [0..<n]. i < n" by simp
  from fold_rows[OF raw[unfolded raw_patches_shape[OF sh]] zeros5_shaped int this this n idx]
  show ?thesis using idx by simp
qed

lemma raw_patches_bad_rows:
  assumes sh: "image_shape img = (h, w, c)" and "n div 2 < h" and "h < 2 * (n div 2)"
  shows "raw_patches img n = Inl ValueError"
proof -
  let ?k = "n div 2"
  from assms have "0 < n" by (cases n) auto
  then have n: "[0..<n] = 0 # [1..<n]" by (simp add: upt_rec)
  have "slice_len h (int 0) (int h - 2 * int ?k + int 0) = 2 * (h - ?k)"
    using src_len_bad[OF assms(2,3)] by simp
  moreover have "slice_len h (int ?k) (int h - int ?k) = 0"
    using assms(3) by (simp add: dest_len)
  ultimately have "\<not> broadcastable (slice_len h (int 0) (int h - 2 * int ?k + int 0))
      (slice_len h (int ?k) (int h - int ?k))"
    using assms(2) by (simp add: broadcastable_def)
  then have "assign_offset img h w c ?k 0 0 (zeros5 h w c n) = Inl ValueError"
    by (simp add: assign_offset_def Let_def)
  then show ?thesis
    unfolding raw_patches_shape[OF sh] by (subst n, simp, subst n, simp)
qed

lemma raw_patches_bad_cols:
  assumes sh: "image_shape img = (h, w, c)" and "n div 2 < w" and "w < 2 * (n div 2)"
  shows "raw_patches img n = Inl ValueError"
proof -
  let ?k = "n div 2"
  from assms have "0 < n" by (cases n) auto
  then have n: "[0..<n] = 0 # [1..<n]" by (simp add: upt_rec)
  have "slice_len w (int 0) (int w - 2 * int ?k + int 0) = 2 * (w - ?k)"
    using src_len_bad[OF assms(2,3)] by simp
  moreover have "slice_len w (int ?k) (int w - int ?k) = 0"
    using assms(3) by (simp add: dest_len)
  ultimately have "\<not> broadcastable (slice_len w (int 0) (int w - 2 * int ?k + int 0))
      (slice_len w (int ?k) (int w - int ?k))"
    using assms(2) by (simp add: broadcastable_def)
  then have "assign_offset img h w c ?k 0 0 (zeros5 h w c n) = Inl ValueError"
    by (simp add: assign_offset_def Let_def)
  then show ?thesis
    unfolding raw_patches_shape[OF sh] by (subst n, simp, subst n, simp)
qed


subsection \<open>Flattening and normalising one patch\<close>

lemma length_concat_rect:
  assumes "\<forall>xs \<in> set xss. length xs = m"
  shows "length (concat xss) = length xss * m"
  using assms by (induction xss) simp_all

lemma concat_nth_rect:
  assumes "\<forall>xs \<in> set xss. length xs = m" and "a < length xss" and "b < m"
  shows "concat xss ! (a * m + b) = xss ! a ! b"
  using assms
proof (induction xss arbitrary: a)
  case Nil
  then show ?case by simp
next
  case (Cons xs xss)
  show ?case
  proof (cases a)
    case 0
    with Cons.prems show ?thesis by (simp add: nth_append)
  next
    case (Suc a')
    with Cons.prems have "concat xss ! (a' * m + b) = xss ! a' ! b"
      by (intro Cons.IH) simp_all
    with Suc Cons.prems show ?thesis by (simp add: nth_append)
  qed
qed

lemma block_index: "i < n \<Longrightarrow> j < n \<Longrightarrow> i * n + j < n * (n::nat)"
proof -
  assume a: "i < n" "j < n"
  then have "i * n + j < Suc i * n" by simp
  also have "\<dots> \<le> n * n" using a(1) by (intro mult_le_mono1) simp
  finally show ?thesis .
qed

lemma patch_blocks:
  assumes "patch_shaped c n p"
  shows "\<forall>xs \<in> set (map concat p). length xs = n * n"
  using assms by (auto simp: patch_shaped_def list_all_iff length_concat_rect)

lemma length_flatten_patch:
  assumes "patch_shaped c n p"
  shows "length (flatten_patch p) = c * n ^ 2"
  using length_concat_rect[OF patch_blocks[OF assms]] patch_shapedD(1)[OF assms]
  by (simp add: flatten_patch_def power2_eq_square)

lemma flatten_patch_nth:
  assumes p: "patch_shaped c n p" and idx: "ch < c" "i < n" "j < n"
  shows "flatten_patch p ! (ch * n ^ 2 + i * n + j) = p ! ch ! i ! j"
proof -
  have len: "length (map concat p) = c" using patch_shapedD(1)[OF p] by simp
  have rows: "\<forall>xs \<in> set (p ! ch). length xs = n"
    using p idx(1) by (auto simp: patch_shaped_def list_all_length in_set_conv_nth)
  have "flatten_patch p ! (ch * (n * n) + (i * n + j)) = map concat p ! ch ! (i * n + j)"
    unfolding flatten_patch_def
    using len idx by (intro concat_nth_rect[OF patch_blocks[OF p]]) (simp_all add: block_index)
  also have "\<dots> = concat (p ! ch) ! (i * n + j)"
    using patch_shapedD(1)[OF p] idx(1) by simp
  also have "\<dots> = p ! ch ! i ! j"
    using patch_shapedD(2)[OF p idx(1)] idx by (intro concat_nth_rect[OF rows]) simp_all
  finally show ?thesis by (simp add: power2_eq_square add.assoc)
qed

lemma length_center_patch:
  assumes "patch_shaped c n p"
  shows "length (center_patch p) = c * n ^ 2"
proof -
  have "\<forall>xs \<in> set (map (\<lambda>block. let b = concat block in map (\<lambda>x. x - mean b) b) p).
          length xs = n * n"
    using patch_blocks[OF assms] by (auto simp: Let_def)
  from length_concat_rect[OF this] patch_shapedD(1)[OF assms] show ?thesis
    by (simp add: center_patch_def power2_eq_square)
qed

lemma map_zero: "map (\<lambda>x. 0) xs = replicate (length xs) 0"
  by (induction xs) simp_all

lemma l2norm_nonneg: "0 \<le> l2norm v"
proof -
  have "0 \<le> sum_list (map (\<lambda>x. x * x) v)"
    by (rule sum_list_nonneg) auto
  then show ?thesis by (simp add: l2norm_def)
qed

lemma l2norm_zero: "l2norm v = 0 \<longleftrightarrow> v = replicate (length v) 0"
proof -
  have nn: "0 \<le> sum_list (map (\<lambda>x. x * x) xs)" for xs :: "real list"
    by (rule sum_list_nonneg) auto
  have "sum_list (map (\<lambda>x. x * x) v) = 0 \<longleftrightarrow> v = replicate (length v) 0"
    by (induction v) (auto simp: add_nonneg_eq_0_iff nn)
  then show ?thesis by (simp add: l2norm_def)
qed

lemma normalize_at_masked:
  assumes "\<not> mask_at h w k r s v"
  shows "normalize_at h w k r s v = replicate (length v) 0"
  using assms by (simp add: normalize_at_def map_zero)

lemma normalize_at_zero_vector:
  assumes "v = replicate (length v) 0"
  shows "normalize_at h w k r s v = replicate (length v) 0"
proof -
  have "map (\<lambda>x. x * m / d) (replicate q 0) = replicate q (0::real)" for m d q
    by simp
  then show ?thesis
    unfolding normalize_at_def by (subst (3) assms) simp
qed

lemma normalize_at_small:
  assumes "l2norm v < 1 / 1000000"
  shows "normalize_at h w k r s v = replicate (length v) 0"
proof (cases "l2norm v = 0")
  case True
  then show ?thesis by (intro normalize_at_zero_vector) (simp add: l2norm_zero)
next
  case False
  with assms have "\<not> mask_at h w k r s v" by (simp add: mask_at_def fix_zero_def)
  then show ?thesis by (rule normalize_at_masked)
qed

lemma normalize_at_margin:
  assumes "margin h k r \<or> margin w k s"
  shows "normalize_at h w k r s v = replicate (length v) 0"
  using assms by (intro normalize_at_masked) (auto simp: mask_at_def)

lemma preprocess_result:
  assumes "image_shape img = (h, w, c)" and "raw_patches img n = Inr nrm" and "0 < h * w * c"
  shows "preprocess_ncc_impl img (int n) =
           Inr (map (\<lambda>r. map (\<lambda>s.
                   normalize_at h w (n div 2) r s (center_patch (nrm ! r ! s))) [0..<w]) [0..<h])"
  using assms by (simp add: preprocess_ncc_impl_def Let_def)

lemma preprocess_raises:
  assumes "raw_patches img n = Inl e"
  shows "preprocess_ncc_impl img (int n) = Inl ValueError"
  using assms raw_patches_error[OF assms]
  by (simp add: preprocess_ncc_impl_def Let_def split: prod.splits)

lemma preprocess_empty:
  assumes "wf_image h w c img" and "h * w * c = 0"
  shows "preprocess_ncc_impl img (int n) = Inl ValueError"
proof (cases "raw_patches img n")
  case (Inl e)
  then show ?thesis by (rule preprocess_raises)
next
  case (Inr nrm)
  with image_shape_empty[OF assms] show ?thesis
    by (auto simp: preprocess_ncc_impl_def Let_def split: prod.splits)
qed

lemma preprocess_pixel:
  assumes wf: "wf_image h w c img" and out: "preprocess_ncc_impl img (int n) = Inr out"
    and rs: "r < h" "s < w"
  shows "\<exists>nrm. raw_patches img n = Inr nrm \<and> field_shaped h w c n nrm \<and> 0 < c \<and>
           image_shape img = (h, w, c) \<and>
           out ! r ! s = normalize_at h w (n div 2) r s (center_patch (nrm ! r ! s))"
proof -
  have sh: "image_shape img = (h, w, c)"
    using rs by (intro image_shape_wf[OF wf]) simp_all
  from out preprocess_empty[OF wf, of n] have pos: "0 < h * w * c" by (cases "h * w * c = 0") simp_all
  from out obtain nrm where raw: "raw_patches img n = Inr nrm"
    using preprocess_raises[of img n] by (cases "raw_patches img n") simp_all
  from preprocess_result[OF sh raw pos] out rs
  have "out ! r ! s = normalize_at h w (n div 2) r s (center_patch (nrm ! r ! s))"
    by auto
  with raw raw_patches_shaped[OF sh raw] pos sh show ?thesis by simp
qed


lemma center_block_const:
  assumes "\<forall>x \<in> set b. x = v" and "b \<noteq> []"
  shows "map (\<lambda>x. x - mean b) b = replicate (length b) 0"
proof -
  from assms(1) have b: "b = replicate (length b) v"
    by (simp add: replicate_length_same)
  have "sum_list b = real (length b) * v"
    by (subst b) (simp add: sum_list_replicate)
  with assms(2) have "mean b = v" by (simp add: mean_def)
  with assms(1) have "map (\<lambda>x. x - mean b) b = map (\<lambda>x. 0) b" by simp
  then show ?thesis by (simp add: map_zero)
qed

lemma center_patch_const:
  assumes p: "patch_shaped c n p" and n: "0 < n"
    and const: "\<forall>ch<c. \<forall>i<n. \<forall>j<n. p ! ch ! i ! j = col ch"
  shows "center_patch p = replicate (c * n ^ 2) 0"
proof -
  have "x = 0" if "x \<in> set (center_patch p)" for x
  proof -
    from that obtain blk where blk: "blk \<in> set p"
      and x: "x \<in> set (map (\<lambda>y. y - mean (concat blk)) (concat blk))"
      by (auto simp: center_patch_def Let_def)
    from blk obtain ch where ch: "ch < c" "blk = p ! ch"
      using patch_shapedD(1)[OF p] by (auto simp: in_set_conv_nth)
    have "y = col ch" if "y \<in> set (concat blk)" for y
    proof -
      from that obtain row where "row \<in> set blk" "y \<in> set row" by auto
      then obtain i j where "i < n" "j < n" "y = blk ! i ! j"
        using patch_shapedD(2,3)[OF p ch(1)] ch(2)
        by (metis in_set_conv_nth)
      with const ch show ?thesis by simp
    qed
    then have all: "\<forall>y \<in> set (concat blk). y = col ch" by blast
    have "length (concat blk) = n * n"
      using patch_blocks[OF p] blk by auto
    with n have "length (concat blk) \<noteq> 0" by simp
    then have "concat blk \<noteq> []" by (simp only: length_0_conv not_False_eq_True)
    from center_block_const[OF all this] x show ?thesis by simp
  qed
  then have "replicate (length (center_patch p)) 0 = center_patch p"
    by (intro replicate_length_same) blast
  then show ?thesis by (simp add: length_center_patch[OF p])
qed

text \<open>
  Whenever \<^verbatim>\<open>preprocess_ncc_impl\<close> returns, the vector of every pixel within the \<open>k\<close>-margin
  is the zero vector, whatever the image holds.
\<close>

lemma boundary_zero:
  assumes wf: "wf_image h w c img" and n: "n = 2 * k + 1"
    and out: "preprocess_ncc_impl img (int n) = Inr out"
    and rs: "r < h" "s < w"
    and border: "r < k \<or> h \<le> r + k \<or> s < k \<or> w \<le> s + k"
  shows "out ! r ! s = replicate (c * n ^ 2) 0"
proof -
  from preprocess_pixel[OF wf out rs] obtain nrm where
    sh: "field_shaped h w c n nrm"
    and o: "out ! r ! s = normalize_at h w (n div 2) r s (center_patch (nrm ! r ! s))"
    by blast
  have k: "n div 2 = k" using n by simp
  have "margin h k r \<or> margin w k s"
    using border margin_rows[OF rs(1), of k] margin_rows[OF rs(2), of k] by blast
  from normalize_at_margin[OF this] show ?thesis
    unfolding o k by (simp add: length_center_patch[OF field_shapedD(3)[OF sh rs]])
qed

lemma preprocess_raises_between:
  assumes wf: "wf_image h w c img" and n: "n = 2 * k + 1"
    and bad: "k < h \<and> h < 2 * k \<or> k < w \<and> w < 2 * k"
  shows "preprocess_ncc_impl img (int n) = Inl ValueError"
proof (cases "h * w * c = 0")
  case True
  then show ?thesis by (rule preprocess_empty[OF wf])
next
  case False
  then have sh: "image_shape img = (h, w, c)" by (intro image_shape_wf[OF wf]) simp_all
  have k: "n div 2 = k" using n by simp
  from bad have "raw_patches img n = Inl ValueError"
    using raw_patches_bad_rows[OF sh, of n] raw_patches_bad_cols[OF sh, of n] unfolding k
    by blast
  then show ?thesis by (rule preprocess_raises)
qed

text \<open>
  Claim C3 asks for zero vectors in the \<open>k\<close>-margin for every image shape, images smaller
  than the window included, as does the docstring (patches that extend past the boundary
  are zero).  For a height or width strictly between \<open>k\<close> and \<open>2 * k\<close> the function returns
  nothing: in the first pass of the loop the source slice \<^verbatim>\<open>image[0:h-2*k]\<close> has a negative
  stop, which Python counts from the end, so it selects \<open>2 * (h - k)\<close> rows while the
  destination \<^verbatim>\<open>normalized[k:h-k]\<close> is empty, and the assignment raises ValueError.
  A 3x3 image with a 5x5 window is such an input: every pixel lies in the margin, and
  no field of zero vectors comes back.
\<close>

theorem preprocess_small_image_raises:
  "wf_image 3 3 1 [[[1], [2], [3]], [[4], [5], [6]], [[7], [8], [9]]] \<and>
   preprocess_ncc_impl [[[1], [2], [3]], [[4], [5], [6]], [[7], [8], [9]]] 5 = Inl ValueError"
proof -
  have wf: "wf_image 3 3 1 [[[1], [2], [3]], [[4], [5], [6]], [[7], [8], [9]]]"
    by (simp add: wf_image_def)
  from preprocess_raises_between[OF wf, of 5 2] wf show ?thesis by simp
qed

text \<open>
  Claim C4.  For an odd window size \<open>n = 2 * k + 1\<close> and a pixel \<open>(r, s)\<close> whose window lies
  inside the image, the loops return, and the raw patch of the pixel, flattened, has length
  \<open>c * n^2\<close> and holds at index \<open>ch * n^2 + i * n + j\<close> the image value at row
  \<open>r - k + i\<close>, column \<open>s - k + j\<close>, channel \<open>ch\<close>.
\<close>

theorem patch_layout:
  assumes wf: "wf_image h w c img" and n: "n = 2 * k + 1"
    and int: "k \<le> r" "r + k < h" "k \<le> s" "s + k < w"
    and idx: "ch < c" "i < n" "j < n"
  shows "\<exists>nrm. raw_patches img n = Inr nrm \<and>
           length (flatten_patch (nrm ! r ! s)) = c * n ^ 2 \<and>
           flatten_patch (nrm ! r ! s) ! (ch * n ^ 2 + i * n + j)
             = img ! (r - k + i) ! (s - k + j) ! ch"
proof -
  have rs: "r < h" "s < w" using int by simp_all
  then have sh: "image_shape img = (h, w, c)" by (intro image_shape_wf[OF wf]) simp_all
  have k: "n div 2 = k" using n by simp
  have "\<not> (n div 2 < h \<and> h < 2 * (n div 2))" "\<not> (n div 2 < w \<and> w < 2 * (n div 2))"
    using int unfolding k by simp_all
  from raw_patches_total[OF sh this] obtain nrm where raw: "raw_patches img n = Inr nrm" ..
  note p = field_shapedD(3)[OF raw_patches_shaped[OF sh raw] rs]
  have "nrm ! r ! s ! ch ! i ! j = img ! (r - k + i) ! (s - k + j) ! ch"
    using raw_patches_entry[OF sh raw _ _ _ _ idx, of r s] int unfolding k by simp
  with flatten_patch_nth[OF p idx] length_flatten_patch[OF p] raw show ?thesis by simp
qed

theorem patch_layout_witness:
  "\<exists>nrm. raw_patches [[[1, 10], [2, 20], [3, 30]], [[4, 40], [5, 50], [6, 60]],
                       [[7, 70], [8, 80], [9, 90]]] 3 = Inr nrm \<and>
      length (flatten_patch (nrm ! 1 ! 1)) = 18 \<and>
      flatten_patch (nrm ! 1 ! 1) ! 16 = 80"
proof -
  let ?img = "[[[1, 10], [2, 20], [3, 30]], [[4, 40], [5, 50], [6, 60]],
               [[7, 70], [8, 80], [9, 90 :: real]]]"
  have wf: "wf_image 3 3 2 ?img" by (simp add: wf_image_def)
  from patch_layout[OF wf, of 3 1 1 1 1 2 1] show ?thesis by simp
qed


lemma preprocess_total:
  assumes wf: "wf_image h w c img" and pos: "0 < h * w * c"
    and ok: "\<not> (n div 2 < h \<and> h < 2 * (n div 2))" "\<not> (n div 2 < w \<and> w < 2 * (n div 2))"
  shows "\<exists>nrm. raw_patches img n = Inr nrm \<and>
           preprocess_ncc_impl img (int n) =
             Inr (map (\<lambda>r. map (\<lambda>s.
                   normalize_at h w (n div 2) r s (center_patch (nrm ! r ! s))) [0..<w]) [0..<h])"
proof -
  from pos have sh: "image_shape img = (h, w, c)" by (intro image_shape_wf[OF wf]) simp_all
  from raw_patches_total[OF sh ok] obtain nrm where raw: "raw_patches img n = Inr nrm" ..
  with preprocess_result[OF sh raw pos] show ?thesis by blast
qed

text \<open>
  The patch of a 3x3 one-channel image in binary32.  The value \<open>8192819 / 8192\<close> is the
  binary32 number nearest to 1000.1.  The sum of nine copies is rounded to
  \<open>9216921 / 1024\<close> and the mean to \<open>16385637 / 16384\<close>, which is \<open>2^-14\<close> less than the
  value; so every entry of the centred vector is \<open>2^-14\<close>, and its norm is
  \<open>3 * 2^-14\<close>.
\<close>

lemma sqrt_norm: "sqrt (9 / 268435456) = 3 / 16384"
  by (rule real_sqrt_unique) (simp_all add: power2_eq_square)

lemma fcenter_const:
  "fcenter_patch binary32 [replicate 3 (replicate 3 (8192819 / 8192))]
     = replicate 9 (Finite (1 / 16384))"
  using r32
  by (simp add: fcenter_patch_def fmean_def np_sum_def pairwise_sum_9 fsub_def numeral_3_eq_3
      numeral_eq_Suc)

lemma fcenter_zero:
  "fcenter_patch binary32 [replicate 3 (replicate 3 0)] = replicate 9 (Finite 0)"
  using r32_9
  by (simp add: fcenter_patch_def fmean_def np_sum_def pairwise_sum_9 fsub_def numeral_3_eq_3
      numeral_eq_Suc rnd_zero)

lemma fl2norm_zero: "fl2norm binary32 (replicate 9 (Finite 0)) = Finite 0"
  by (simp add: fl2norm_def np_sum_def pairwise_sum_9 numeral_eq_Suc rnd_zero)

lemma fl2norm_const: "fl2norm binary32 (replicate 9 (Finite (1 / 16384))) = Finite (3 / 16384)"
proof -
  have s: "np_sum binary32 (map (\<lambda>x. fmul binary32 x x) (replicate 9 (Finite (1 / 16384))))
             = Finite (9 / 268435456)"
    using r32 by (simp add: np_sum_def pairwise_sum_9 numeral_eq_Suc)
  show ?thesis
    unfolding fl2norm_def s using r32_norm by (simp add: sqrt_norm)
qed

lemma fnormalize_zero:
  "fnormalize_at binary32 h w k r s (replicate 9 (Finite 0)) = replicate 9 (Finite 0)"
  by (simp add: fnormalize_at_def fl2norm_zero ffix_zero_def rnd_zero)

lemma fnormalize_const:
  "fnormalize_at binary32 3 3 1 1 1 (replicate 9 (Finite (1 / 16384)))
     = replicate 9 (Finite (11184811 / 33554432))"
proof -
  have m: "fmask_at binary32 3 3 1 1 1 (replicate 9 (Finite (1 / 16384)))"
    using r32_thr by (simp add: fmask_at_def fl2norm_const ffix_zero_def margin_def clip_index_def)
  show ?thesis
    using m r32_d r32_third by (simp add: fnormalize_at_def fl2norm_const ffix_zero_def)
qed


text \<open>
  Claim C5 says that an image of one colour yields the zero vector at every interior
  pixel.  For the 3x3 one-channel image of the colour \<open>8192819 / 8192\<close> and the window
  size 3 the code computes in binary32 a norm of \<open>3 * 2^-14\<close>, about \<open>1.8e-4\<close>, at the
  interior pixel \<open>(1, 1)\<close>.  That is not below the threshold, and the output vector of the
  pixel has nine entries \<open>11184811 / 33554432\<close>, the binary32 number nearest to \<open>1/3\<close>.
\<close>

theorem constant_image_float_counterexample:
  "wf_image 3 3 1 (replicate 3 (replicate 3 [8192819 / 8192])) \<and>
   preprocess_ncc_f32 (replicate 3 (replicate 3 [8192819 / 8192])) 3 =
     Inr [[replicate 9 (Finite 0), replicate 9 (Finite 0), replicate 9 (Finite 0)],
          [replicate 9 (Finite 0), replicate 9 (Finite (11184811 / 33554432)),
           replicate 9 (Finite 0)],
          [replicate 9 (Finite 0), replicate 9 (Finite 0), replicate 9 (Finite 0)]]"
proof -
  let ?x = "8192819 / 8192 :: real"
  let ?img = "replicate 3 (replicate 3 [?x])"
  let ?Z = "[replicate 3 (replicate 3 (0::real))]"
  have wf: "wf_image 3 3 1 ?img" by (simp add: wf_image_def list_all_iff)
  have sh: "image_shape ?img = (3, 3, 1)" by (simp add: image_shape_def numeral_3_eq_3)
  have raw: "raw_patches ?img 3 =
      Inr [[?Z, ?Z, ?Z], [?Z, [replicate 3 (replicate 3 ?x)], ?Z], [?Z, ?Z, ?Z]]"
    by code_simp
  show ?thesis
    using wf fnormalize_const
    by (simp add: preprocess_ncc_f32_def sh raw upt_rec fcenter_zero fcenter_const
        fnormalize_zero)
qed

text \<open>
  Claim C5, amended.  In exact real arithmetic: for an odd window size \<open>n = 2 * k + 1\<close>
  and an interior pixel, the function returns whenever the image has a channel; if the
  norm of the pixel's mean-subtracted vector (per-channel means, one norm over all
  channels) is below \<open>1e-6\<close>, the output vector of the pixel is all zeros; and so it is
  when every pixel of the image has the same colour.
\<close>

theorem degenerate_norm_zero:
  assumes wf: "wf_image h w c img" and n: "n = 2 * k + 1"
    and int: "k \<le> r" "r + k < h" "k \<le> s" "s + k < w"
  shows "(0 < c \<longrightarrow> (\<exists>out. preprocess_ncc_impl img (int n) = Inr out)) \<and>
         (\<forall>out nrm. preprocess_ncc_impl img (int n) = Inr out \<longrightarrow> raw_patches img n = Inr nrm \<longrightarrow>
            (l2norm (center_patch (nrm ! r ! s)) < 1 / 1000000 \<longrightarrow>
               out ! r ! s = replicate (c * n ^ 2) 0) \<and>
            ((\<forall>r'<h. \<forall>s'<w. img ! r' ! s' = colour) \<longrightarrow>
               out ! r ! s = replicate (c * n ^ 2) 0))"
proof (intro conjI allI impI)
  have rs: "r < h" "s < w" using int by simp_all
  have k: "n div 2 = k" using n by simp
  have ok: "\<not> (n div 2 < h \<and> h < 2 * (n div 2))" "\<not> (n div 2 < w \<and> w < 2 * (n div 2))"
    using int unfolding k by simp_all
  show "\<exists>out. preprocess_ncc_impl img (int n) = Inr out" if "0 < c"
    using preprocess_total[OF wf _ ok] that rs by auto
  fix out nrm
  assume out: "preprocess_ncc_impl img (int n) = Inr out" and raw: "raw_patches img n = Inr nrm"
  from preprocess_pixel[OF wf out rs] raw have
    sh: "field_shaped h w c n nrm" and ish: "image_shape img = (h, w, c)"
    and o: "out ! r ! s = normalize_at h w (n div 2) r s (center_patch (nrm ! r ! s))"
    by auto
  note p = field_shapedD(3)[OF sh rs]
  show small: "out ! r ! s = replicate (c * n ^ 2) 0"
    if "l2norm (center_patch (nrm ! r ! s)) < 1 / 1000000"
    unfolding o using normalize_at_small[OF that] by (simp add: length_center_patch[OF p])
  show "out ! r ! s = replicate (c * n ^ 2) 0" if const: "\<forall>r'<h. \<forall>s'<w. img ! r' ! s' = colour"
  proof -
    have "nrm ! r ! s ! ch ! i ! j = colour ! ch" if idx: "ch < c" "i < n" "j < n" for ch i j
    proof -
      have "r - k + i < h" "s - k + j < w" using int idx n by simp_all
      with const have "img ! (r - k + i) ! (s - k + j) = colour" by simp
      then show ?thesis
        using raw_patches_entry[OF ish raw _ _ _ _ idx, of r s] int unfolding k by simp
    qed
    then have "center_patch (nrm ! r ! s) = replicate (c * n ^ 2) 0"
      using n by (intro center_patch_const[OF p, where col = "\<lambda>ch. colour ! ch"]) simp_all
    then have "l2norm (center_patch (nrm ! r ! s)) = 0"
      by (simp add: l2norm_zero)
    then show ?thesis by (intro small) simp
  qed
qed

theorem degenerate_norm_zero_witness:
  "\<exists>out. preprocess_ncc_impl [[[2], [2], [2]], [[2], [2], [2]], [[2], [2], [2]]] 3 = Inr out \<and>
         out ! 1 ! 1 = replicate 9 0"
proof -
  let ?img = "[[[2], [2], [2]], [[2], [2], [2]], [[2], [2], [2 :: real]]]"
  have wf: "wf_image 3 3 1 ?img" by (simp add: wf_image_def)
  have const: "\<forall>r'<3. \<forall>s'<3. ?img ! r' ! s' = [2]"
    by (auto simp: less_Suc_eq numeral_3_eq_3)
  have raw: "\<exists>nrm. raw_patches ?img 3 = Inr nrm"
    by (rule raw_patches_total[of _ 3 3 1]) (simp_all add: image_shape_def)
  from degenerate_norm_zero[OF wf, of 3 1 1 1 "[2]"] const raw
  show ?thesis by auto
qed

text \<open>
  Claim C10.  With window size 1, \<^verbatim>\<open>preprocess_ncc_impl\<close> returns the all-zero field for
  every image that has an element (an array without elements makes the reshape raise).
  Each of the two mechanisms is enough: every mean-subtracted vector is zero, and with
  \<open>k = 0\<close> the mask is False at every pixel.
\<close>

theorem window_one_all_zero:
  assumes wf: "wf_image h w c img"
  shows "preprocess_ncc_impl img 1 =
           (if h * w * c = 0 then Inl ValueError
            else Inr (replicate h (replicate w (replicate c 0)))) \<and>
         (\<forall>nrm r s. raw_patches img 1 = Inr nrm \<longrightarrow> r < h \<longrightarrow> s < w \<longrightarrow>
            center_patch (nrm ! r ! s) = replicate c 0) \<and>
         (\<forall>r s v. r < h \<longrightarrow> s < w \<longrightarrow> \<not> mask_at h w (1 div 2) r s v)"
proof (intro conjI allI impI)
  show "\<not> mask_at h w (1 div 2) r s v" if "r < h" "s < w" for r s v
    using margin_zero[OF that(1)] by (simp add: mask_at_def)
  show c0: "center_patch (nrm ! r ! s) = replicate c 0"
    if raw: "raw_patches img 1 = Inr nrm" and rs: "r < h" "s < w" for nrm r s
  proof -
    have sh: "image_shape img = (h, w, c)" using rs by (intro image_shape_wf[OF wf]) simp_all
    note p = field_shapedD(3)[OF raw_patches_shaped[OF sh raw] rs]
    have "center_patch (nrm ! r ! s) = replicate (c * 1 ^ 2) 0"
      by (rule center_patch_const[OF p, where col = "\<lambda>ch. nrm ! r ! s ! ch ! 0 ! 0"]) simp_all
    then show ?thesis by simp
  qed
  show "preprocess_ncc_impl img 1 =
           (if h * w * c = 0 then Inl ValueError
            else Inr (replicate h (replicate w (replicate c 0))))"
  proof (cases "h * w * c = 0")
    case True
    with preprocess_empty[OF wf, of 1] show ?thesis by simp
  next
    case False
    then have pos: "0 < h * w * c" by simp
    from preprocess_total[OF wf pos, of 1] obtain nrm where
      raw: "raw_patches img 1 = Inr nrm"
      and out: "preprocess_ncc_impl img (int 1) =
             Inr (map (\<lambda>r. map (\<lambda>s.
                   normalize_at h w (1 div 2) r s (center_patch (nrm ! r ! s))) [0..<w]) [0..<h])"
      by auto
    have px: "normalize_at h w 0 r s (center_patch (nrm ! r ! s)) = replicate c 0"
      if "r < h" "s < w" for r s
      using normalize_at_zero_vector[of "center_patch (nrm ! r ! s)" h w 0 r s]
      unfolding c0[OF raw that] by simp
    have row: "map (\<lambda>s. normalize_at h w 0 r s (center_patch (nrm ! r ! s))) [0..<w]
                 = replicate w (replicate c 0)" if "r < h" for r
      by (rule nth_equalityI) (simp_all add: px that)
    have "map (\<lambda>r. map (\<lambda>s. normalize_at h w 0 r s (center_patch (nrm ! r ! s)))
                 [0..<w]) [0..<h]
          = replicate h (replicate w (replicate c 0))"
      by (rule nth_equalityI) (simp_all add: row)
    with out False show ?thesis by simp
  qed
qed

theorem window_one_all_zero_witness:
  "preprocess_ncc_impl [[[5, 7], [1, 2]]] 1 = Inr [[[0, 0], [0, 0]]]"
proof -
  have wf: "wf_image 1 2 2 [[[5, 7], [1, 2]]]" by (simp add: wf_image_def)
  from window_one_all_zero[OF wf] show ?thesis by (simp add: numeral_2_eq_2)
qed


end
